theory Spec2Isabelle
  imports Main
begin

section \<open>Data model of \<open>pore_c2/model.py\<close>\<close>

text \<open>
  Python integers are unbounded, so offsets are \<open>int\<close>. Strings are \<open>string\<close>; one
  \<open>char\<close> stands for one character of a Python \<open>str\<close> (reads are ASCII nucleotide text).
  Every exception the code can raise is a value of \<open>error\<close>, and a function that can raise
  returns \<open>error + 'a\<close>.
\<close>

datatype error =
    AssertionError  \<comment> \<open>\<open>assert len(deltas) == len(probs)\<close>\<close>
  | ValueError      \<comment> \<open>tuple unpacking of a modification key; \<open>to_fastq\<close> without quality\<close>
  | KeyError        \<comment> \<open>a lookup in the \<open>base_indices\<close> dictionary\<close>
  | PysamError      \<comment> \<open>anything raised inside \<open>to_pysam().modified_bases\<close>\<close>

text \<open>The class \<open>AlignData\<close>, with its twelve attributes in declaration order.\<close>

record AlignData =
  name :: string
  seq :: string
  flag :: int
  ref_name :: string
  ref_pos :: int
  map_quality :: int
  cigar :: string
  next_ref_name :: string
  next_ref_pos :: int
  length_attr :: int
  qual :: string
  tags :: "string list"

text \<open>
  The constructor call \<open>AlignData(name=..., seq=..., qual=..., tags=...)\<close>: the other eight
  attributes take their declared defaults.
\<close>

definition mk_AlignData :: "string \<Rightarrow> string \<Rightarrow> string \<Rightarrow> string list \<Rightarrow> AlignData" where
  "mk_AlignData nm sq ql tgs =
     \<lparr>name = nm, seq = sq, flag = 4, ref_name = ''*'', ref_pos = 0, map_quality = 0,
      cigar = ''*'', next_ref_name = ''*'', next_ref_pos = 0, length_attr = 0,
      qual = ql, tags = tgs\<rparr>"

text \<open>
  The elements of a modification key of \<open>pysam\<close>'s \<open>modified_bases\<close>: a key is a tuple whose
  elements are strings (canonical base, modification code) or integers (strand, numeric
  modification code).
\<close>

datatype py_val = PStr string | PInt int

type_synonym mod_key = "py_val list"
type_synonym mod_data = "(int \<times> int) list"
type_synonym modified_bases = "(mod_key \<times> mod_data) list"

section \<open>Python primitives\<close>

text \<open>\<open>str(n)\<close> for an integer: decimal digits, with a minus sign for a negative number.\<close>

fun str_nat :: "nat \<Rightarrow> string" where
  "str_nat n =
     (if n < 10 then [''0123456789'' ! n]
      else str_nat (n div 10) @ [''0123456789'' ! (n mod 10)])"

declare str_nat.simps [simp del]

definition str_int :: "int \<Rightarrow> string" where
  "str_int i = (if i < 0 then CHR ''-'' # str_nat (nat (- i)) else str_nat (nat i))"

text \<open>Formatting a key element in an f-string.\<close>

fun render :: "py_val \<Rightarrow> string" where
  "render (PStr s) = s"
| "render (PInt i) = str_int i"

text \<open>\<open>sep.join(xs)\<close>.\<close>

fun join :: "string \<Rightarrow> string list \<Rightarrow> string" where
  "join sep [] = []"
| "join sep [x] = x"
| "join sep (x # y # ys) = x @ sep @ join sep (y # ys)"

text \<open>
  The slice \<open>xs[start:stop]\<close> with step 1: a negative bound counts from the end, and both
  bounds are clamped to \<open>[0, len(xs)]\<close>; the slice is empty when the bounds cross.
\<close>

definition py_slice :: "'a list \<Rightarrow> int \<Rightarrow> int \<Rightarrow> 'a list" where
  "py_slice xs start stop =
     (let n = int (length xs);
          lo = (if start < 0 then max (start + n) 0 else min start n);
          hi = (if stop < 0 then max (stop + n) 0 else min stop n)
      in take (nat (hi - lo)) (drop (nat lo) xs))"

text \<open>\<open>b.upper()\<close> for one ASCII character.\<close>

definition upper_char :: "char \<Rightarrow> char" where
  "upper_char c =
     (let n = (of_char c :: nat) in if 97 \<le> n \<and> n \<le> 122 then char_of (n - 32) else c)"

text \<open>\<open>t.split(":", 1)[0]\<close>: the text before the first colon, all of \<open>t\<close> when there is none.\<close>

definition tag_key :: "string \<Rightarrow> string" where
  "tag_key t = takeWhile (\<lambda>c. c \<noteq> CHR '':'') t"

section \<open>\<open>AlignData.has_mods\<close>\<close>

text \<open>
  \<open>MOD_TAGS\<close> comes from \<open>settings.py\<close>; it is a parameter of every function that
  reads it.
\<close>

definition has_mods :: "string set \<Rightarrow> AlignData \<Rightarrow> bool" where
  "has_mods MOD_TAGS r = (\<exists>t \<in> set (tags r). tag_key t \<in> MOD_TAGS)"

section \<open>\<open>AlignData.split\<close>: positions and intervals\<close>

text \<open>
  Lines 34 to 42: the list \<open>positions\<close> after the \<open>if\<close>. In the \<open>else\<close> branch the list is
  not empty, so \<open>positions[0]\<close> and \<open>positions[-1]\<close> are its head and its last element.
\<close>

definition split_positions :: "int \<Rightarrow> int list \<Rightarrow> int list" where
  "split_positions read_length positions =
     (if positions = [] then [0, read_length]
      else
        let p1 = sort positions;
            p2 = (if hd p1 \<noteq> 0 then [0] @ p1 else p1);
            p3 = (if last p2 \<noteq> read_length then p2 @ [read_length] else p2)
        in p3)"

text \<open>Line 43: \<open>list(zip(positions[:-1], positions[1:]))\<close>.\<close>

definition intervals_of :: "int list \<Rightarrow> (int \<times> int) list" where
  "intervals_of positions = zip (butlast positions) (tl positions)"

definition split_intervals :: "AlignData \<Rightarrow> int list \<Rightarrow> (int \<times> int) list" where
  "split_intervals r positions =
     intervals_of (split_positions (int (length (seq r))) positions)"

section \<open>\<open>AlignData.get_subread\<close>\<close>

text \<open>
  Lines 105 to 107: the indices of the child sequence whose upper-cased character equals
  the canonical base. An integer key element never equals a one-character string.
\<close>

definition base_positions :: "string \<Rightarrow> py_val \<Rightarrow> nat list" where
  "base_positions sq canonical_base =
     [x \<leftarrow> [0..<length sq]. PStr [upper_char (sq ! x)] = canonical_base]"

text \<open>Line 93: the indices of the pairs of \<open>mod_data\<close> whose offset lies in the interval.\<close>

definition overlap_idx :: "int \<Rightarrow> int \<Rightarrow> mod_data \<Rightarrow> nat list" where
  "overlap_idx start stop md =
     [x \<leftarrow> [0..<length md]. start \<le> fst (md ! x) \<and> fst (md ! x) < stop]"

text \<open>
  Lines 110 to 118: the loop over the positions of the canonical base, with its two
  variables \<open>counter\<close> and \<open>deltas\<close>.
\<close>

fun delta_loop :: "int \<Rightarrow> int list \<Rightarrow> nat list \<Rightarrow> nat \<Rightarrow> string list \<Rightarrow> string list" where
  "delta_loop start base_offsets [] counter deltas = deltas"
| "delta_loop start base_offsets (seq_idx # rest) counter deltas =
     (let orig_idx = int seq_idx + start in
      if orig_idx \<in> set base_offsets
      then delta_loop start base_offsets rest 0 (deltas @ [str_nat counter])
      else delta_loop start base_offsets rest (counter + 1) deltas)"

text \<open>
  Lines 96 to 100: a key of four elements unpacks as it is, a key of three elements
  raises \<open>ValueError\<close> in the \<open>try\<close> and unpacks in the handler with an empty skip scheme,
  and any other key raises \<open>ValueError\<close> in the handler.
\<close>

definition unpack_mod_key :: "mod_key \<Rightarrow> error + (py_val \<times> py_val \<times> py_val \<times> py_val)" where
  "unpack_mod_key k =
     (if length k = 4 then Inr (k ! 0, k ! 1, k ! 2, k ! 3)
      else if length k = 3 then Inr (k ! 0, k ! 1, PStr [], k ! 2)
      else Inl ValueError)"

text \<open>The variables that the loop over the keys updates.\<close>

record enc_state =
  mm_str :: string
  ml_str :: string
  base_indices :: "py_val \<rightharpoonup> nat list"

text \<open>Lines 92 to 126: the body of the loop, for one item of \<open>modified_bases\<close>.\<close>

definition mod_step ::
  "int \<Rightarrow> int \<Rightarrow> string \<Rightarrow> enc_state \<Rightarrow> mod_key \<times> mod_data \<Rightarrow> error + enc_state" where
  "mod_step start stop sq st item =
     (let mod_key = fst item; md = snd item;
          idx = overlap_idx start stop md
      in if idx = [] then Inr st
         else case unpack_mod_key mod_key of
           Inl e \<Rightarrow> Inl e
         | Inr (cb, strand, skip_scheme, mod_type) \<Rightarrow>
            let canonical_base = mod_key ! 0;
                bi = (if base_indices st canonical_base = None
                      then (base_indices st)(canonical_base \<mapsto> base_positions sq canonical_base)
                      else base_indices st);
                sel = map (\<lambda>i. md ! i) idx;
                base_offsets = map fst sel;
                probs = map snd sel
            in (case bi canonical_base of
                  None \<Rightarrow> Inl KeyError
                | Some positions \<Rightarrow>
                   let deltas = delta_loop start base_offsets positions 0 []
                   in if length deltas \<noteq> length probs then Inl AssertionError
                      else
                        let prob_str = join '','' (map str_int probs);
                            strand_str = (if strand = PInt 0 then ''+'' else ''-'')
                        in Inr \<lparr>mm_str = mm_str st @ render canonical_base @ strand_str
                                    @ render mod_type @ render skip_scheme
                                    @ '','' @ join '','' deltas @ '';'',
                                ml_str = ml_str st @ render canonical_base @ '','' @ prob_str @ '';'',
                                base_indices = bi\<rparr>))"

text \<open>Line 91: the loop over the items, which stops at the first exception.\<close>

fun mod_loop ::
  "int \<Rightarrow> int \<Rightarrow> string \<Rightarrow> enc_state \<Rightarrow> modified_bases \<Rightarrow> error + enc_state" where
  "mod_loop start stop sq st [] = Inr st"
| "mod_loop start stop sq st (item # rest) =
     (case mod_step start stop sq st item of
        Inl e \<Rightarrow> Inl e
      | Inr st' \<Rightarrow> mod_loop start stop sq st' rest)"

text \<open>Lines 75 to 82: the tags of the parent that the child keeps.\<close>

definition kept_tags :: "string set \<Rightarrow> bool \<Rightarrow> string list \<Rightarrow> string list" where
  "kept_tags MOD_TAGS add_mi_tag ts =
     filter (\<lambda>t. let key = tag_key t
                 in \<not> (key \<in> MOD_TAGS) \<and> \<not> (key = ''MI'' \<and> add_mi_tag)) ts"

text \<open>Line 86: the text of the \<open>Xc\<close> tag.\<close>

definition xc_tag :: "int \<Rightarrow> int \<Rightarrow> int \<Rightarrow> int \<Rightarrow> string" where
  "xc_tag start stop i n =
     ''Xc:B:i,'' @ str_int start @ '','' @ str_int stop @ '','' @ str_int i @ '','' @ str_int n"

text \<open>
  Lines 75 to 86: the tag list before the modification tags. A tuple \<open>subread_index\<close> is
  true whatever it holds, \<open>None\<close> is false.
\<close>

definition base_tags ::
  "string set \<Rightarrow> AlignData \<Rightarrow> int \<Rightarrow> int \<Rightarrow> bool \<Rightarrow> bool \<Rightarrow> (int \<times> int) option \<Rightarrow> string list" where
  "base_tags MOD_TAGS r start stop add_mi_tag add_xc_tag subread_index =
     (let t0 = kept_tags MOD_TAGS add_mi_tag (tags r);
          t1 = (if add_mi_tag then t0 @ [''MI:Z:'' @ name r] else t0);
          t2 = (case subread_index of
                  Some (i, n) \<Rightarrow> if add_xc_tag then t1 @ [xc_tag start stop i n] else t1
                | None \<Rightarrow> t1)
      in t2)"

text \<open>
  The method itself. \<open>if modified_bases:\<close> is false for \<open>None\<close> and for an empty mapping.
\<close>

definition get_subread ::
  "string set \<Rightarrow> AlignData \<Rightarrow> int \<Rightarrow> int \<Rightarrow> string \<Rightarrow> bool \<Rightarrow> bool \<Rightarrow> (int \<times> int) option
     \<Rightarrow> modified_bases option \<Rightarrow> error + AlignData" where
  "get_subread MOD_TAGS r start stop nm add_mi_tag add_xc_tag subread_index mods =
     (let sq = py_slice (seq r) start stop;
          ql = py_slice (qual r) start stop;
          tgs = base_tags MOD_TAGS r start stop add_mi_tag add_xc_tag subread_index
      in case mods of
           None \<Rightarrow> Inr (mk_AlignData nm sq ql tgs)
         | Some mb \<Rightarrow>
            if mb = [] then Inr (mk_AlignData nm sq ql tgs)
            else
              (case mod_loop start stop sq
                      \<lparr>mm_str = ''MM:Z:'', ml_str = ''ML:B:'', base_indices = Map.empty\<rparr> mb of
                 Inl e \<Rightarrow> Inl e
               | Inr st \<Rightarrow> Inr (mk_AlignData nm sq ql (tgs @ [mm_str st, ml_str st]))))"

section \<open>\<open>AlignData.split\<close>\<close>

text \<open>Line 51: the name of the child at index \<open>x\<close> of \<open>num_subreads\<close>.\<close>

definition subread_name :: "AlignData \<Rightarrow> nat \<Rightarrow> nat \<Rightarrow> string" where
  "subread_name r x num_subreads =
     name r @ '':'' @ str_nat (x + 1) @ ''_'' @ str_nat num_subreads"

text \<open>Lines 49 to 61: the loop over \<open>enumerate(intervals)\<close>; an exception ends it.\<close>

fun split_loop ::
  "string set \<Rightarrow> AlignData \<Rightarrow> modified_bases option \<Rightarrow> nat \<Rightarrow> (nat \<times> int \<times> int) list
     \<Rightarrow> error + AlignData list" where
  "split_loop MOD_TAGS r mods num_subreads [] = Inr []"
| "split_loop MOD_TAGS r mods num_subreads ((x, start, stop) # rest) =
     (case get_subread MOD_TAGS r start stop (subread_name r x num_subreads) True True
             (Some (int x, int num_subreads)) mods of
        Inl e \<Rightarrow> Inl e
      | Inr c \<Rightarrow>
         (case split_loop MOD_TAGS r mods num_subreads rest of
            Inl e \<Rightarrow> Inl e
          | Inr cs \<Rightarrow> Inr (c # cs)))"

text \<open>
  The method. \<open>self.to_pysam().modified_bases\<close> is computed by \<open>pysam\<close> from the record
  alone; its outcome for \<open>r\<close> is the parameter \<open>decoded\<close> (an exception or a mapping),
  which is read only when \<open>has_mods\<close> holds. The mapping is a list of items in the order
  that \<open>modified_bases.items()\<close> yields them. A result \<open>None\<close> is the empty mapping here:
  \<open>get_subread\<close> tests the mapping for truth only, and both are false.
\<close>

definition split ::
  "string set \<Rightarrow> error + modified_bases \<Rightarrow> AlignData \<Rightarrow> int list
     \<Rightarrow> error + AlignData list" where
  "split MOD_TAGS decoded r positions =
     (let intervals = split_intervals r positions;
          num_subreads = length intervals
      in case (if has_mods MOD_TAGS r
               then (case decoded of Inl e \<Rightarrow> Inl e | Inr mb \<Rightarrow> Inr (Some mb))
               else Inr None) of
           Inl e \<Rightarrow> Inl e
         | Inr mods \<Rightarrow>
            split_loop MOD_TAGS r mods num_subreads (zip [0..<num_subreads] intervals))"

section \<open>\<open>AlignData.to_fastq\<close>\<close>

definition to_fastq :: "AlignData \<Rightarrow> bool \<Rightarrow> error + string" where
  "to_fastq r with_tags =
     (let tag_str = (if with_tags then join [CHR 0x09] (tags r) else [])
      in if qual r = ''*'' then Inl ValueError
         else Inr (''@'' @ name r @ '' '' @ tag_str @ [CHR 0x0A] @ seq r @ [CHR 0x0A]
                   @ ''+'' @ [CHR 0x0A] @ qual r @ [CHR 0x0A]))"

section \<open>Notions of the specification\<close>

text \<open>
  A list of intervals tiles \<open>[lo, hi)\<close>: the first one starts at \<open>lo\<close>, each one ends where
  the next one starts and does not end before it starts, and the last one ends at \<open>hi\<close>.
  No interval tiles a range unless the range is empty.
\<close>

fun tiles :: "int \<Rightarrow> int \<Rightarrow> (int \<times> int) list \<Rightarrow> bool" where
  "tiles lo hi [] = (lo = hi)"
| "tiles lo hi ((s, e) # rest) = (s = lo \<and> s \<le> e \<and> tiles e hi rest)"

text \<open>The offsets of the intervals \<open>[s, e)\<close> of a list, concatenated in the order of the list.\<close>

definition covered :: "(int \<times> int) list \<Rightarrow> int list" where
  "covered ivs = concat (map (\<lambda>(s, e). [s..e - 1]) ivs)"

text \<open>
  The offsets as the specification words them for a list that is not empty: sorted and
  deduplicated, \<open>0\<close> prepended if absent, \<open>len(sequence)\<close> appended if absent.
\<close>

definition split_positions_spec :: "int \<Rightarrow> int list \<Rightarrow> int list" where
  "split_positions_spec read_length positions =
     (let p1 = sort (remdups positions);
          p2 = (if 0 \<notin> set p1 then [0] @ p1 else p1);
          p3 = (if read_length \<notin> set p2 then p2 @ [read_length] else p2)
      in p3)"


section \<open>Auxiliary notions\<close>

text \<open>
  The child that \<open>get_subread\<close> builds for one item of \<open>enumerate(intervals)\<close> when there
  is no modification mapping.
\<close>

definition plain_child :: "string set \<Rightarrow> AlignData \<Rightarrow> nat \<Rightarrow> nat \<times> int \<times> int \<Rightarrow> AlignData" where
  "plain_child MT r n item =
     mk_AlignData (subread_name r (fst item) n)
       (py_slice (seq r) (fst (snd item)) (snd (snd item)))
       (py_slice (qual r) (fst (snd item)) (snd (snd item)))
       (base_tags MT r (fst (snd item)) (snd (snd item)) True True (Some (int (fst item), int n)))"

text \<open>The mapping that \<open>split\<close> hands to \<open>get_subread\<close> when it does not raise.\<close>

definition split_mods :: "string set \<Rightarrow> error + modified_bases \<Rightarrow> AlignData \<Rightarrow> modified_bases option" where
  "split_mods MT decoded r =
     (if has_mods MT r then (case decoded of Inl e \<Rightarrow> None | Inr mb \<Rightarrow> Some mb) else None)"

text \<open>
  The selection of the specification for the interval \<open>[start, stop)\<close>: the pairs of a key
  whose offset lies in the interval, in their order; a key survives into the child when
  one of its pairs is selected.
\<close>

definition in_interval :: "int \<Rightarrow> int \<Rightarrow> int \<times> int \<Rightarrow> bool" where
  "in_interval start stop p = (start \<le> fst p \<and> fst p < stop)"

definition selected :: "int \<Rightarrow> int \<Rightarrow> mod_data \<Rightarrow> mod_data" where
  "selected start stop md = filter (in_interval start stop) md"

definition survives :: "int \<Rightarrow> int \<Rightarrow> mod_key \<times> mod_data \<Rightarrow> bool" where
  "survives start stop item = (selected start stop (snd item) \<noteq> [])"

text \<open>
  For one item of the mapping and the child sequence \<open>sq\<close>: the probabilities selected,
  and the deltas that the loop of lines 110 to 118 emits for the selected offsets over the
  positions of the key's canonical base.
\<close>

definition key_probs :: "int \<Rightarrow> int \<Rightarrow> mod_key \<times> mod_data \<Rightarrow> int list" where
  "key_probs start stop item = map snd (selected start stop (snd item))"

definition key_deltas :: "int \<Rightarrow> int \<Rightarrow> string \<Rightarrow> mod_key \<times> mod_data \<Rightarrow> string list" where
  "key_deltas start stop sq item =
     delta_loop start (map fst (selected start stop (snd item)))
       (base_positions sq (fst item ! 0)) 0 []"

text \<open>
  The text that one surviving key adds to the \<open>MM\<close> tag (lines 122 to 125) and to the
  \<open>ML\<close> tag (line 126). A key that does not unpack adds nothing: the code has raised.
\<close>

definition mm_entry :: "int \<Rightarrow> int \<Rightarrow> string \<Rightarrow> mod_key \<times> mod_data \<Rightarrow> string" where
  "mm_entry start stop sq item =
     (case unpack_mod_key (fst item) of
        Inl e \<Rightarrow> []
      | Inr (cb, strand, skip_scheme, mod_type) \<Rightarrow>
          render cb @ (if strand = PInt 0 then ''+'' else ''-'') @ render mod_type
          @ render skip_scheme @ '','' @ join '','' (key_deltas start stop sq item) @ '';'')"

definition ml_entry :: "int \<Rightarrow> int \<Rightarrow> mod_key \<times> mod_data \<Rightarrow> string" where
  "ml_entry start stop item =
     render (fst item ! 0) @ '','' @ join '','' (map str_int (key_probs start stop item)) @ '';''"

text \<open>
  The invariant of the dictionary \<open>base_indices\<close>: an entry holds the positions of its key
  in the child sequence.
\<close>

definition cache_ok :: "string \<Rightarrow> (py_val \<rightharpoonup> nat list) \<Rightarrow> bool" where
  "cache_ok sq bi = (\<forall>k v. bi k = Some v \<longrightarrow> v = base_positions sq k)"

section \<open>Positions and intervals\<close>

lemma intervals_of_Cons2: "intervals_of (a # b # ps) = (a, b) # intervals_of (b # ps)"
  by (simp add: intervals_of_def)

lemma tiles_sorted:
  "sorted ps \<Longrightarrow> ps \<noteq> [] \<Longrightarrow> tiles (hd ps) (last ps) (intervals_of ps)"
proof (induction ps rule: induct_list012)
  case 1
  then show ?case by simp
next
  case (2 x)
  then show ?case by (simp add: intervals_of_def)
next
  case (3 x y zs)
  then show ?case by (simp add: intervals_of_Cons2)
qed

lemma tiles_le: "tiles lo hi ivs \<Longrightarrow> lo \<le> hi"
  by (induction lo hi ivs rule: tiles.induct) auto

lemma tiles_covered: "tiles lo hi ivs \<Longrightarrow> covered ivs = [lo..hi - 1]"
proof (induction lo hi ivs rule: tiles.induct)
  case (1 lo hi)
  then show ?case by (simp add: covered_def)
next
  case (2 lo hi s e rest)
  then have rest: "covered rest = [e..hi - 1]" and "lo = s" and "s \<le> e"
    and t: "tiles e hi rest"
    by simp_all
  from t have "e \<le> hi" by (rule tiles_le)
  have "[s..hi - 1] = [s..e - 1] @ [e..hi - 1]"
  proof (cases "e = hi")
    case True
    then show ?thesis by simp
  next
    case False
    with \<open>e \<le> hi\<close> have "e \<le> hi - 1" by simp
    with \<open>s \<le> e\<close> show ?thesis by (rule upto_split1)
  qed
  with rest \<open>lo = s\<close> show ?case by (simp add: covered_def)
qed

lemma hd_sorted_Min: "sorted xs \<Longrightarrow> xs \<noteq> [] \<Longrightarrow> hd xs = Min (set xs)"
  by (cases xs) (auto intro!: Min_eqI [symmetric])

lemma sorted_le_last: "sorted xs \<Longrightarrow> y \<in> set xs \<Longrightarrow> y \<le> last xs"
  by (induction xs) auto

lemma last_sorted_Max: "sorted xs \<Longrightarrow> xs \<noteq> [] \<Longrightarrow> last xs = Max (set xs)"
  by (rule Max_eqI [symmetric]) (auto simp: sorted_le_last)

lemma sort_nonempty: "ps \<noteq> [] \<Longrightarrow> sort ps \<noteq> []"
  by (metis length_sort length_0_conv)

lemma split_positions_nonempty: "split_positions n ps \<noteq> []"
  by (simp add: split_positions_def Let_def sort_nonempty)

lemma split_positions_in_range:
  assumes "\<forall>p \<in> set ps. 0 \<le> p \<and> p \<le> n" and "0 \<le> n"
  shows "sorted (split_positions n ps) \<and> hd (split_positions n ps) = 0
         \<and> last (split_positions n ps) = n"
proof (cases "ps = []")
  case True
  with assms show ?thesis by (simp add: split_positions_def)
next
  case False
  let ?p1 = "sort ps"
  have ne: "?p1 \<noteq> []" using False by (rule sort_nonempty)
  have s1: "sorted ?p1" by simp
  have r1: "\<forall>p \<in> set ?p1. 0 \<le> p \<and> p \<le> n" using assms by simp
  let ?p2 = "if hd ?p1 \<noteq> 0 then [0] @ ?p1 else ?p1"
  have s2: "sorted ?p2" using s1 r1 by auto
  have h2: "hd ?p2 = 0" by simp
  have ne2: "?p2 \<noteq> []" using ne by simp
  have r2: "\<forall>p \<in> set ?p2. 0 \<le> p \<and> p \<le> n" using r1 assms(2) by auto
  let ?p3 = "if last ?p2 \<noteq> n then ?p2 @ [n] else ?p2"
  have s3: "sorted ?p3" using s2 r2 by (auto simp: sorted_append)
  have h3: "hd ?p3 = 0" using h2 ne2 by (simp del: append.simps)
  have l3: "last ?p3 = n" by simp
  have "split_positions n ps = ?p3" using False by (simp add: split_positions_def Let_def)
  with s3 h3 l3 show ?thesis by simp
qed

lemma split_positions_general:
  assumes "ps \<noteq> []"
  shows "split_positions n ps =
          (if Min (set ps) \<noteq> 0 then [0] else []) @ sort ps @ (if Max (set ps) \<noteq> n then [n] else [])"
proof -
  have ne: "sort ps \<noteq> []" using assms by (rule sort_nonempty)
  have h: "hd (sort ps) = Min (set ps)" using hd_sorted_Min [of "sort ps"] ne by simp
  have l: "last (sort ps) = Max (set ps)" using last_sorted_Max [of "sort ps"] ne by simp
  show ?thesis using assms ne h l by (simp add: split_positions_def Let_def)
qed

lemma split_positions_eq_spec:
  assumes ne: "ps \<noteq> []" and d: "distinct ps" and r: "\<forall>p \<in> set ps. 0 \<le> p \<and> p \<le> n"
  shows "split_positions n ps = split_positions_spec n ps"
proof -
  have sne: "sort ps \<noteq> []" using ne by (rule sort_nonempty)
  have h: "hd (sort ps) = Min (set ps)" using hd_sorted_Min [of "sort ps"] sne by simp
  have l: "last (sort ps) = Max (set ps)" using last_sorted_Max [of "sort ps"] sne by simp
  have fin: "finite (set ps)" and ne': "set ps \<noteq> {}" using ne by simp_all
  have a: "(hd (sort ps) \<noteq> 0) = (0 \<notin> set ps)"
  proof
    assume "hd (sort ps) \<noteq> 0"
    show "0 \<notin> set ps"
    proof
      assume "0 \<in> set ps"
      then have "Min (set ps) \<le> 0" by simp
      moreover have "0 \<le> Min (set ps)" using r fin ne' by simp
      ultimately show False using h \<open>hd (sort ps) \<noteq> 0\<close> by simp
    qed
  next
    assume "0 \<notin> set ps"
    moreover have "Min (set ps) \<in> set ps" using fin ne' by (rule Min_in)
    ultimately show "hd (sort ps) \<noteq> 0" using h by metis
  qed
  have b: "(last (sort ps) \<noteq> n) = (n \<notin> set ps)"
  proof
    assume "last (sort ps) \<noteq> n"
    show "n \<notin> set ps"
    proof
      assume "n \<in> set ps"
      then have "n \<le> Max (set ps)" by simp
      moreover have "Max (set ps) \<le> n" using r fin ne' by simp
      ultimately show False using l \<open>last (sort ps) \<noteq> n\<close> by simp
    qed
  next
    assume "n \<notin> set ps"
    moreover have "Max (set ps) \<in> set ps" using fin ne' by (rule Max_in)
    ultimately show "last (sort ps) \<noteq> n" using l by metis
  qed
  have c: "0 \<notin> set ps \<Longrightarrow> n \<noteq> 0"
  proof
    assume "0 \<notin> set ps" and "n = 0"
    moreover have "hd ps \<in> set ps" using ne by simp
    ultimately show False using r by force
  qed
  show ?thesis using ne d sne a b c
    by (auto simp add: split_positions_def split_positions_spec_def Let_def distinct_remdups_id)
qed


lemma set_split_positions:
  "set ps \<subseteq> set (split_positions n ps) \<and> set (split_positions n ps) \<subseteq> set ps \<union> {0, n}"
  by (auto simp add: split_positions_def Let_def)

lemma get_subread_None:
  "get_subread MT r s e nm mi xc si None =
     Inr (mk_AlignData nm (py_slice (seq r) s e) (py_slice (qual r) s e) (base_tags MT r s e mi xc si))"
  by (simp add: get_subread_def)

lemma split_loop_None:
  "split_loop MT r None n xs = Inr (map (plain_child MT r n) xs)"
  by (induction xs) (auto simp: get_subread_None plain_child_def)

lemma split_no_mods:
  "\<not> has_mods MT r \<Longrightarrow>
     split MT decoded r ps =
       Inr (map (plain_child MT r (length (split_intervals r ps)))
              (zip [0..<length (split_intervals r ps)] (split_intervals r ps)))"
  by (simp add: split_def Let_def split_loop_None)

lemma split_loop_Inr:
  "split_loop MT r mods n xs = Inr cs \<Longrightarrow>
     length cs = length xs \<and>
     (\<forall>i < length xs.
        get_subread MT r (fst (snd (xs ! i))) (snd (snd (xs ! i))) (subread_name r (fst (xs ! i)) n)
          True True (Some (int (fst (xs ! i)), int n)) mods = Inr (cs ! i))"
proof (induction xs arbitrary: cs)
  case Nil
  then show ?case by simp
next
  case (Cons a xs)
  obtain x s e where a: "a = (x, s, e)" by (cases a) auto
  from Cons.prems a obtain c cs' where
    c: "get_subread MT r s e (subread_name r x n) True True (Some (int x, int n)) mods = Inr c"
    and cs': "split_loop MT r mods n xs = Inr cs'" and cs: "cs = c # cs'"
    by (auto split: sum.splits)
  from Cons.IH [OF cs'] have ih: "length cs' = length xs"
    "\<forall>i < length xs.
        get_subread MT r (fst (snd (xs ! i))) (snd (snd (xs ! i))) (subread_name r (fst (xs ! i)) n)
          True True (Some (int (fst (xs ! i)), int n)) mods = Inr (cs' ! i)"
    by simp_all
  show ?case
  proof (intro conjI allI impI)
    show "length cs = length (a # xs)" using ih(1) cs by simp
  next
    fix i assume "i < length (a # xs)"
    then show "get_subread MT r (fst (snd ((a # xs) ! i))) (snd (snd ((a # xs) ! i)))
          (subread_name r (fst ((a # xs) ! i)) n) True True
          (Some (int (fst ((a # xs) ! i)), int n)) mods = Inr (cs ! i)"
      using c ih(2) cs a by (cases i) auto
  qed
qed

lemma split_Inr:
  assumes "split MT decoded r ps = Inr cs"
  shows "length cs = length (split_intervals r ps) \<and>
     (\<forall>i < length (split_intervals r ps).
        get_subread MT r (fst (split_intervals r ps ! i)) (snd (split_intervals r ps ! i))
          (subread_name r i (length (split_intervals r ps)))
          True True (Some (int i, int (length (split_intervals r ps)))) (split_mods MT decoded r)
        = Inr (cs ! i))"
proof -
  let ?ivs = "split_intervals r ps"
  let ?xs = "zip [0..<length ?ivs] ?ivs"
  from assms have "split_loop MT r (split_mods MT decoded r) (length ?ivs) ?xs = Inr cs"
    by (auto simp: split_def Let_def split_mods_def split: if_splits sum.splits)
  from split_loop_Inr [OF this] show ?thesis by simp
qed

lemma map_nth_filter_upt:
  "map (\<lambda>i. xs ! i) (filter (\<lambda>i. P (xs ! i)) [0..<length xs]) = filter P xs"
proof (induction xs rule: rev_induct)
  case Nil
  then show ?case by simp
next
  case (snoc x xs)
  have "map (\<lambda>i. (xs @ [x]) ! i) (filter (\<lambda>i. P ((xs @ [x]) ! i)) [0..<length xs])
        = map (\<lambda>i. xs ! i) (filter (\<lambda>i. P (xs ! i)) [0..<length xs])"
    by (intro map_cong filter_cong refl) (auto simp: nth_append)
  with snoc show ?case by auto
qed

lemma overlap_idx_selected:
  "map (\<lambda>i. md ! i) (overlap_idx start stop md) = selected start stop md"
  unfolding overlap_idx_def selected_def in_interval_def
  by (rule map_nth_filter_upt [of md "\<lambda>p. start \<le> fst p \<and> fst p < stop"])

lemma overlap_idx_Nil: "(overlap_idx start stop md = []) = (selected start stop md = [])"
  using overlap_idx_selected [of md start stop] by (metis map_is_Nil_conv)

lemma unpack_cb: "unpack_mod_key k = Inr (cb, strand, skip, mt) \<Longrightarrow> cb = k ! 0"
  by (auto simp: unpack_mod_key_def split: if_splits)

lemma unpack_Inr_iff: "(\<exists>u. unpack_mod_key k = Inr u) = (length k = 3 \<or> length k = 4)"
  by (auto simp: unpack_mod_key_def)

lemma unpack_Inl: "unpack_mod_key k = Inl e \<Longrightarrow> e = ValueError \<and> length k \<noteq> 3 \<and> length k \<noteq> 4"
  by (auto simp: unpack_mod_key_def split: if_splits)

lemma mod_step_skip:
  "\<not> survives start stop item \<Longrightarrow> mod_step start stop sq st item = Inr st"
  by (simp add: mod_step_def Let_def survives_def overlap_idx_Nil)

lemma mod_step_survives:
  assumes sv: "survives start stop item" and ok: "cache_ok sq (base_indices st)"
  shows "mod_step start stop sq st item =
     (case unpack_mod_key (fst item) of
        Inl e \<Rightarrow> Inl ValueError
      | Inr u \<Rightarrow>
         if length (key_deltas start stop sq item) \<noteq> length (key_probs start stop item)
         then Inl AssertionError
         else Inr \<lparr>mm_str = mm_str st @ mm_entry start stop sq item,
                   ml_str = ml_str st @ ml_entry start stop item,
                   base_indices =
                     (if base_indices st (fst item ! 0) = None
                      then (base_indices st)(fst item ! 0 \<mapsto> base_positions sq (fst item ! 0))
                      else base_indices st)\<rparr>)"
proof (cases "unpack_mod_key (fst item)")
  case (Inl e)
  with sv show ?thesis
    by (simp add: mod_step_def Let_def survives_def overlap_idx_Nil unpack_Inl)
next
  case (Inr u)
  obtain cb strand skip mt where u: "u = (cb, strand, skip, mt)" by (cases u) auto
  have cb: "cb = fst item ! 0" using Inr u by (auto dest: unpack_cb)
  let ?bi = "if base_indices st (fst item ! 0) = None
             then (base_indices st)(fst item ! 0 \<mapsto> base_positions sq (fst item ! 0))
             else base_indices st"
  have look: "?bi (fst item ! 0) = Some (base_positions sq (fst item ! 0))"
    using ok by (auto simp: cache_ok_def)
  show ?thesis
    using sv Inr u cb look
    by (simp add: mod_step_def Let_def survives_def overlap_idx_Nil overlap_idx_selected
        key_deltas_def key_probs_def mm_entry_def ml_entry_def)
qed


lemma mod_step_cache:
  assumes "mod_step start stop sq st item = Inr st'" and "cache_ok sq (base_indices st)"
  shows "cache_ok sq (base_indices st')"
proof (cases "survives start stop item")
  case False
  with assms show ?thesis by (simp add: mod_step_skip)
next
  case True
  from assms(1) assms(2) show ?thesis
    unfolding mod_step_survives [OF True assms(2)]
    by (auto simp: cache_ok_def split: sum.splits if_splits)
qed

lemma mod_loop_Inr:
  assumes "mod_loop start stop sq st mb = Inr st'" and "cache_ok sq (base_indices st)"
  shows "mm_str st' = mm_str st @ concat (map (mm_entry start stop sq) (filter (survives start stop) mb))
       \<and> ml_str st' = ml_str st @ concat (map (ml_entry start stop) (filter (survives start stop) mb))
       \<and> (\<forall>item \<in> set mb. survives start stop item \<longrightarrow>
             length (key_deltas start stop sq item) = length (key_probs start stop item)
             \<and> (length (fst item) = 3 \<or> length (fst item) = 4))"
  using assms
proof (induction mb arbitrary: st)
  case Nil
  then show ?case by simp
next
  case (Cons item mb)
  from Cons.prems(1) obtain st1 where
    s1: "mod_step start stop sq st item = Inr st1" and l1: "mod_loop start stop sq st1 mb = Inr st'"
    by (auto split: sum.splits)
  have ok1: "cache_ok sq (base_indices st1)" using s1 Cons.prems(2) by (rule mod_step_cache)
  note ih = Cons.IH [OF l1 ok1]
  show ?case
  proof (cases "survives start stop item")
    case False
    with s1 have "st1 = st" by (simp add: mod_step_skip)
    with ih False show ?thesis by simp
  next
    case True
    from s1 have u: "\<exists>u. unpack_mod_key (fst item) = Inr u"
      and len: "length (key_deltas start stop sq item) = length (key_probs start stop item)"
      and st1: "mm_str st1 = mm_str st @ mm_entry start stop sq item"
               "ml_str st1 = ml_str st @ ml_entry start stop item"
      unfolding mod_step_survives [OF True Cons.prems(2)]
      by (auto split: sum.splits if_splits)
    from u have "length (fst item) = 3 \<or> length (fst item) = 4"
      using unpack_Inr_iff [of "fst item"] by blast
    with ih True len st1 show ?thesis by simp
  qed
qed

lemma mod_loop_Inl:
  assumes "mod_loop start stop sq st mb = Inl e" and "cache_ok sq (base_indices st)"
  shows "e = AssertionError \<or>
         (e = ValueError \<and> (\<exists>item \<in> set mb. survives start stop item
                               \<and> length (fst item) \<noteq> 3 \<and> length (fst item) \<noteq> 4))"
  using assms
proof (induction mb arbitrary: st)
  case Nil
  then show ?case by simp
next
  case (Cons item mb)
  show ?case
  proof (cases "mod_step start stop sq st item")
    case (Inr st1)
    with Cons.prems(1) have l1: "mod_loop start stop sq st1 mb = Inl e" by simp
    have ok1: "cache_ok sq (base_indices st1)" using Inr Cons.prems(2) by (rule mod_step_cache)
    from Cons.IH [OF l1 ok1] show ?thesis by auto
  next
    case (Inl e')
    with Cons.prems(1) have e: "e' = e" by simp
    have sv: "survives start stop item"
      using Inl by (cases "survives start stop item") (simp_all add: mod_step_skip)
    from Inl e sv show ?thesis
      unfolding mod_step_survives [OF sv Cons.prems(2)]
      by (auto split: sum.splits if_splits dest: unpack_Inl)
  qed
qed

lemma cache_ok_empty: "cache_ok sq Map.empty"
  by (simp add: cache_ok_def)

section \<open>Children of \<open>get_subread\<close> and \<open>split\<close>\<close>

lemma in_range_split_positions:
  assumes "0 \<le> n"
  shows "(\<forall>p \<in> set (split_positions n ps). 0 \<le> p \<and> p \<le> n) = (\<forall>p \<in> set ps. 0 \<le> p \<and> p \<le> n)"
  using assms set_split_positions [of ps n] by (cases "ps = []") (auto simp: split_positions_def Let_def)

lemma str_int_nat: "str_int (int n) = str_nat n"
  by (simp add: str_int_def)

lemma py_slice_all: "py_slice xs 0 (int (length xs)) = xs"
  by (simp add: py_slice_def)

lemma py_slice_star_head: "1 \<le> e \<Longrightarrow> py_slice ''*'' 0 e = ''*''"
  by (simp add: py_slice_def)

lemma py_slice_star_tail: "1 \<le> s \<Longrightarrow> py_slice ''*'' s e = []"
  by (simp add: py_slice_def Let_def min_def)

lemma get_subread_fields:
  assumes "get_subread MT r s e nm mi xc si mods = Inr c"
  shows "name c = nm \<and> seq c = py_slice (seq r) s e \<and> qual c = py_slice (qual r) s e
       \<and> take (length (base_tags MT r s e mi xc si)) (tags c) = base_tags MT r s e mi xc si"
  using assms
  by (auto simp: get_subread_def Let_def mk_AlignData_def split: option.splits if_splits sum.splits)

lemma get_subread_mods_Inr:
  assumes "get_subread MT r s e nm mi xc si (Some mb) = Inr c" and "mb \<noteq> []"
  shows "tags c = base_tags MT r s e mi xc si @
           [''MM:Z:'' @ concat (map (mm_entry s e (py_slice (seq r) s e)) (filter (survives s e) mb)),
            ''ML:B:'' @ concat (map (ml_entry s e) (filter (survives s e) mb))]"
proof -
  let ?init = "\<lparr>mm_str = ''MM:Z:'', ml_str = ''ML:B:'', base_indices = Map.empty\<rparr>"
  from assms obtain st where
    l: "mod_loop s e (py_slice (seq r) s e) ?init mb = Inr st"
    and c: "tags c = base_tags MT r s e mi xc si @ [mm_str st, ml_str st]"
    by (auto simp: get_subread_def Let_def mk_AlignData_def split: sum.splits)
  have ok: "cache_ok (py_slice (seq r) s e) (base_indices ?init)" by (simp add: cache_ok_empty)
  from mod_loop_Inr [OF l ok] c show ?thesis by simp
qed

lemma get_subread_mods_counts:
  assumes "get_subread MT r s e nm mi xc si (Some mb) = Inr c"
  shows "\<forall>item \<in> set mb. survives s e item \<longrightarrow>
           length (key_deltas s e (py_slice (seq r) s e) item) = length (key_probs s e item)"
proof (cases "mb = []")
  case True
  then show ?thesis by simp
next
  case False
  let ?init = "\<lparr>mm_str = ''MM:Z:'', ml_str = ''ML:B:'', base_indices = Map.empty\<rparr>"
  from assms False obtain st where
    l: "mod_loop s e (py_slice (seq r) s e) ?init mb = Inr st"
    by (auto simp: get_subread_def Let_def split: sum.splits)
  have ok: "cache_ok (py_slice (seq r) s e) (base_indices ?init)" by (simp add: cache_ok_empty)
  from mod_loop_Inr [OF l ok] show ?thesis by simp
qed

lemma get_subread_mods_Inl:
  assumes "get_subread MT r s e nm mi xc si mods = Inl err"
  shows "\<exists>mb. mods = Some mb \<and> mb \<noteq> [] \<and>
          (err = AssertionError \<or>
           (err = ValueError \<and> (\<exists>item \<in> set mb. survives s e item
                               \<and> length (fst item) \<noteq> 3 \<and> length (fst item) \<noteq> 4)))"
proof -
  let ?init = "\<lparr>mm_str = ''MM:Z:'', ml_str = ''ML:B:'', base_indices = Map.empty\<rparr>"
  from assms obtain mb where m: "mods = Some mb" "mb \<noteq> []"
    and l: "mod_loop s e (py_slice (seq r) s e) ?init mb = Inl err"
    by (auto simp: get_subread_def Let_def split: option.splits if_splits sum.splits)
  have ok: "cache_ok (py_slice (seq r) s e) (base_indices ?init)" by (simp add: cache_ok_empty)
  from mod_loop_Inl [OF l ok] m show ?thesis by simp
qed

lemma split_Inl:
  assumes "split MT decoded r ps = Inl err"
  shows "has_mods MT r \<and> (decoded = Inl err \<or> err = AssertionError \<or> err = ValueError)"
proof (cases "has_mods MT r")
  case False
  with assms show ?thesis by (simp add: split_no_mods)
next
  case True
  show ?thesis
  proof (cases decoded)
    case (Inl e)
    with assms True show ?thesis by (simp add: split_def Let_def)
  next
    case (Inr mb)
    let ?ivs = "split_intervals r ps"
    from assms True Inr
    have l: "split_loop MT r (Some mb) (length ?ivs) (zip [0..<length ?ivs] ?ivs) = Inl err"
      by (simp add: split_def Let_def)
    have "\<And>n xs. split_loop MT r (Some mb) n xs = Inl err
            \<Longrightarrow> err = AssertionError \<or> err = ValueError"
    proof -
      fix n xs
      show "split_loop MT r (Some mb) n xs = Inl err \<Longrightarrow> err = AssertionError \<or> err = ValueError"
      proof (induction xs)
        case Nil
        then show ?case by simp
      next
        case (Cons a xs)
        obtain x s e where a: "a = (x, s, e)" by (cases a) auto
        show ?case
        proof (cases "get_subread MT r s e (subread_name r x n) True True
                        (Some (int x, int n)) (Some mb)")
          case (Inl e')
          with Cons.prems a have "e' = err" by simp
          with get_subread_mods_Inl [OF Inl] show ?thesis by auto
        next
          case (Inr c)
          with Cons.prems a have "split_loop MT r (Some mb) n xs = Inl err"
            by (auto split: sum.splits)
          then show ?thesis by (rule Cons.IH)
        qed
      qed
    qed
    from this [OF l] True show ?thesis by simp
  qed
qed

lemma py_slice_in_range:
  "0 \<le> s \<Longrightarrow> s \<le> e \<Longrightarrow> e \<le> int (length xs)
     \<Longrightarrow> py_slice xs s e = take (nat (e - s)) (drop (nat s) xs)"
  by (simp add: py_slice_def Let_def min_def)

lemma py_slice_append:
  assumes "0 \<le> s" "s \<le> e" "e \<le> h" "h \<le> int (length xs)"
  shows "py_slice xs s e @ py_slice xs e h = py_slice xs s h"
proof -
  have d: "drop (nat e) xs = drop (nat (e - s)) (drop (nat s) xs)"
    using assms by (simp add: nat_diff_distrib')
  have n: "nat (h - s) = nat (e - s) + nat (h - e)" using assms by simp
  have "take (nat (e - s)) (drop (nat s) xs) @ take (nat (h - e)) (drop (nat e) xs)
      = take (nat (h - s)) (drop (nat s) xs)"
    unfolding d n by (simp add: take_add)
  with assms show ?thesis by (simp add: py_slice_in_range)
qed

lemma tiles_concat_slices:
  "tiles lo hi ivs \<Longrightarrow> 0 \<le> lo \<Longrightarrow> hi \<le> int (length xs)
     \<Longrightarrow> concat (map (\<lambda>iv. py_slice xs (fst iv) (snd iv)) ivs) = py_slice xs lo hi"
proof (induction lo hi ivs rule: tiles.induct)
  case (1 lo hi)
  then show ?case by (simp add: py_slice_def Let_def min_def)
next
  case (2 lo hi s e rest)
  then have "lo = s" "s \<le> e" and t: "tiles e hi rest" by simp_all
  from t have "e \<le> hi" by (rule tiles_le)
  from 2 \<open>lo = s\<close> \<open>s \<le> e\<close> t
  have ih: "concat (map (\<lambda>iv. py_slice xs (fst iv) (snd iv)) rest) = py_slice xs e hi" by simp
  from py_slice_append [of s e hi xs] 2 \<open>lo = s\<close> \<open>s \<le> e\<close> \<open>e \<le> hi\<close> ih
  show ?case by simp
qed

lemma split_children_seq:
  assumes "split MT decoded r ps = Inr cs"
  shows "map seq cs = map (\<lambda>iv. py_slice (seq r) (fst iv) (snd iv)) (split_intervals r ps)"
proof (rule nth_equalityI)
  from split_Inr [OF assms] show "length (map seq cs)
      = length (map (\<lambda>iv. py_slice (seq r) (fst iv) (snd iv)) (split_intervals r ps))" by simp
next
  fix i assume "i < length (map seq cs)"
  with split_Inr [OF assms] have i: "i < length (split_intervals r ps)" "i < length cs" by simp_all
  with split_Inr [OF assms]
  have "get_subread MT r (fst (split_intervals r ps ! i)) (snd (split_intervals r ps ! i))
          (subread_name r i (length (split_intervals r ps)))
          True True (Some (int i, int (length (split_intervals r ps)))) (split_mods MT decoded r)
        = Inr (cs ! i)" by simp
  from get_subread_fields [OF this] i
  show "map seq cs ! i = map (\<lambda>iv. py_slice (seq r) (fst iv) (snd iv)) (split_intervals r ps) ! i"
    by simp
qed

lemma split_child:
  assumes "split MT decoded r ps = Inr cs" and "i < length cs"
  shows "name (cs ! i) = subread_name r i (length cs)
       \<and> seq (cs ! i) = py_slice (seq r) (fst (split_intervals r ps ! i)) (snd (split_intervals r ps ! i))
       \<and> qual (cs ! i) = py_slice (qual r) (fst (split_intervals r ps ! i)) (snd (split_intervals r ps ! i))
       \<and> take (length (kept_tags MT True (tags r)) + 2) (tags (cs ! i))
           = kept_tags MT True (tags r)
             @ [''MI:Z:'' @ name r,
                xc_tag (fst (split_intervals r ps ! i)) (snd (split_intervals r ps ! i))
                  (int i) (int (length cs))]"
proof -
  let ?iv = "split_intervals r ps ! i"
  let ?n = "length (split_intervals r ps)"
  from split_Inr [OF assms(1)] assms(2)
  have len: "length cs = ?n"
    and g: "get_subread MT r (fst ?iv) (snd ?iv) (subread_name r i ?n) True True
             (Some (int i, int ?n)) (split_mods MT decoded r) = Inr (cs ! i)"
    by simp_all
  have bt: "base_tags MT r (fst ?iv) (snd ?iv) True True (Some (int i, int ?n))
        = kept_tags MT True (tags r)
             @ [''MI:Z:'' @ name r, xc_tag (fst ?iv) (snd ?iv) (int i) (int ?n)]"
    by (simp add: base_tags_def)
  from get_subread_fields [OF g] len bt show ?thesis by simp
qed

lemma nth_of_take_eq:
  assumes "take (length ys) xs = ys" and "k < length ys"
  shows "xs ! k = ys ! k"
proof -
  from assms(2) have "take (length ys) xs ! k = xs ! k" by simp
  with assms(1) show ?thesis by simp
qed


section \<open>Claims about the intervals of \<open>split\<close>\<close>

text \<open>
  C1 (as amended). For every record and every list of cut offsets that all lie in
  \<open>[0, len(sequence)]\<close>, the intervals of \<open>split\<close> tile \<open>[0, len(sequence))\<close>: the first
  starts at 0, each ends where the next starts, none ends before it starts, the last ends
  at \<open>len(sequence)\<close>, and their offsets concatenated are exactly
  \<open>0, ..., len(sequence) - 1\<close>. Whenever \<open>split\<close> returns, it returns one child per interval
  in the order of the intervals: child \<open>i\<close> holds the slice of the parent's sequence over
  interval \<open>i\<close> and records that interval in its \<open>Xc\<close> tag, and the children's sequences
  concatenated in the returned order are the parent's sequence. A record without
  modification tags always gets its children.
\<close>

theorem split_intervals_tile:
  assumes "\<forall>p \<in> set positions. 0 \<le> p \<and> p \<le> int (length (seq r))"
  shows "tiles 0 (int (length (seq r))) (split_intervals r positions)
       \<and> covered (split_intervals r positions) = [0..int (length (seq r)) - 1]
       \<and> (\<forall>cs. split MOD_TAGS decoded r positions = Inr cs \<longrightarrow>
             length cs = length (split_intervals r positions)
             \<and> (\<forall>i < length cs.
                   seq (cs ! i)
                     = py_slice (seq r) (fst (split_intervals r positions ! i))
                         (snd (split_intervals r positions ! i))
                   \<and> tags (cs ! i) ! (length (kept_tags MOD_TAGS True (tags r)) + 1)
                     = ''Xc:B:i,'' @ str_int (fst (split_intervals r positions ! i)) @ '',''
                       @ str_int (snd (split_intervals r positions ! i)) @ '',''
                       @ str_int (int i) @ '','' @ str_int (int (length cs)))
             \<and> concat (map seq cs) = seq r)
       \<and> (\<not> has_mods MOD_TAGS r \<longrightarrow> (\<exists>cs. split MOD_TAGS decoded r positions = Inr cs))"
proof -
  let ?n = "int (length (seq r))"
  let ?ivs = "split_intervals r positions"
  from assms have "sorted (split_positions ?n positions) \<and> hd (split_positions ?n positions) = 0
      \<and> last (split_positions ?n positions) = ?n"
    by (intro split_positions_in_range) simp_all
  with tiles_sorted [of "split_positions ?n positions"] split_positions_nonempty [of ?n positions]
  have t: "tiles 0 ?n ?ivs" by (simp add: split_intervals_def)
  have c: "covered ?ivs = [0..?n - 1]" using t by (rule tiles_covered)
  have ch: "\<And>cs. split MOD_TAGS decoded r positions = Inr cs \<Longrightarrow>
             length cs = length ?ivs
             \<and> (\<forall>i < length cs.
                   seq (cs ! i) = py_slice (seq r) (fst (?ivs ! i)) (snd (?ivs ! i))
                   \<and> tags (cs ! i) ! (length (kept_tags MOD_TAGS True (tags r)) + 1)
                     = ''Xc:B:i,'' @ str_int (fst (?ivs ! i)) @ '',''
                       @ str_int (snd (?ivs ! i)) @ '',''
                       @ str_int (int i) @ '','' @ str_int (int (length cs)))
             \<and> concat (map seq cs) = seq r"
  proof -
    fix cs assume s: "split MOD_TAGS decoded r positions = Inr cs"
    from split_Inr [OF s] have len: "length cs = length ?ivs" by simp
    have per: "\<forall>i < length cs.
                   seq (cs ! i) = py_slice (seq r) (fst (?ivs ! i)) (snd (?ivs ! i))
                   \<and> tags (cs ! i) ! (length (kept_tags MOD_TAGS True (tags r)) + 1)
                     = ''Xc:B:i,'' @ str_int (fst (?ivs ! i)) @ '',''
                       @ str_int (snd (?ivs ! i)) @ '',''
                       @ str_int (int i) @ '','' @ str_int (int (length cs))"
    proof (intro allI impI)
      fix i assume i: "i < length cs"
      let ?k = "kept_tags MOD_TAGS True (tags r)"
      let ?bt = "?k @ [''MI:Z:'' @ name r,
                 xc_tag (fst (?ivs ! i)) (snd (?ivs ! i)) (int i) (int (length cs))]"
      from split_child [OF s i]
      have sq: "seq (cs ! i) = py_slice (seq r) (fst (?ivs ! i)) (snd (?ivs ! i))"
        and tk: "take (length ?bt) (tags (cs ! i)) = ?bt"
        by simp_all
      have "tags (cs ! i) ! (length ?k + 1) = ?bt ! (length ?k + 1)"
        using tk by (rule nth_of_take_eq) simp
      then have "tags (cs ! i) ! (length ?k + 1)
          = xc_tag (fst (?ivs ! i)) (snd (?ivs ! i)) (int i) (int (length cs))"
        by (simp add: nth_append)
      with sq show "seq (cs ! i) = py_slice (seq r) (fst (?ivs ! i)) (snd (?ivs ! i))
                   \<and> tags (cs ! i) ! (length ?k + 1)
                     = ''Xc:B:i,'' @ str_int (fst (?ivs ! i)) @ '',''
                       @ str_int (snd (?ivs ! i)) @ '',''
                       @ str_int (int i) @ '','' @ str_int (int (length cs))"
        by (simp add: xc_tag_def)
    qed
    have "concat (map seq cs) = py_slice (seq r) 0 ?n"
      unfolding split_children_seq [OF s]
      using t by (rule tiles_concat_slices) simp_all
    then have cc: "concat (map seq cs) = seq r" by (simp add: py_slice_all)
    from len per cc show "length cs = length ?ivs
             \<and> (\<forall>i < length cs.
                   seq (cs ! i) = py_slice (seq r) (fst (?ivs ! i)) (snd (?ivs ! i))
                   \<and> tags (cs ! i) ! (length (kept_tags MOD_TAGS True (tags r)) + 1)
                     = ''Xc:B:i,'' @ str_int (fst (?ivs ! i)) @ '',''
                       @ str_int (snd (?ivs ! i)) @ '',''
                       @ str_int (int i) @ '','' @ str_int (int (length cs)))
             \<and> concat (map seq cs) = seq r" by blast
  qed
  have nm: "\<not> has_mods MOD_TAGS r \<Longrightarrow> \<exists>cs. split MOD_TAGS decoded r positions = Inr cs"
    by (simp add: split_no_mods)
  from t c ch nm show ?thesis by blast
qed

theorem split_intervals_tile_witness:
  "(0::int) \<le> 5
   \<and> 5 \<le> int (length (seq (mk_AlignData ''read1'' ''AACCGGTTCC'' ''*''
                               [''MM:Z:C+m,0,0;'', ''ML:B:C,200,100'', ''RG:Z:x''])))
   \<and> split_intervals (mk_AlignData ''read1'' ''AACCGGTTCC'' ''*''
                        [''MM:Z:C+m,0,0;'', ''ML:B:C,200,100'', ''RG:Z:x'']) [5]
      = [(0, 5), (5, 10)]
   \<and> tiles 0 10 [(0, 5), (5, 10)]
   \<and> covered [(0, 5), (5, 10)] = [0, 1, 2, 3, 4, 5, 6, 7, 8, 9]
   \<and> split {''Ml'', ''ML'', ''Mm'', ''MM''}
        (Inr [([PStr ''C'', PInt 0, PStr ''m''], [(2, 200), (3, 100)])])
        (mk_AlignData ''read1'' ''AACCGGTTCC'' ''*'' [''MM:Z:C+m,0,0;'', ''ML:B:C,200,100'', ''RG:Z:x''])
        [5]
      = Inr [mk_AlignData ''read1:1_2'' ''AACCG'' ''*''
               [''RG:Z:x'', ''MI:Z:read1'', ''Xc:B:i,0,5,0,2'', ''MM:Z:C+m,0,0;'', ''ML:B:C,200,100;''],
             mk_AlignData ''read1:2_2'' ''GTTCC'' []
               [''RG:Z:x'', ''MI:Z:read1'', ''Xc:B:i,5,10,1,2'', ''MM:Z:'', ''ML:B:'']]
   \<and> concat (map seq
        [mk_AlignData ''read1:1_2'' ''AACCG'' ''*''
           [''RG:Z:x'', ''MI:Z:read1'', ''Xc:B:i,0,5,0,2'', ''MM:Z:C+m,0,0;'', ''ML:B:C,200,100;''],
         mk_AlignData ''read1:2_2'' ''GTTCC'' []
           [''RG:Z:x'', ''MI:Z:read1'', ''Xc:B:i,5,10,1,2'', ''MM:Z:'', ''ML:B:'']])
      = ''AACCGGTTCC''
   \<and> \<not> has_mods {''Ml'', ''ML'', ''Mm'', ''MM''} (mk_AlignData ''read2'' ''AACATGAA'' ''!!!!!!!!'' [])
   \<and> (0::int) \<le> 4 \<and> 4 \<le> int (length (seq (mk_AlignData ''read2'' ''AACATGAA'' ''!!!!!!!!'' [])))
   \<and> split {''Ml'', ''ML'', ''Mm'', ''MM''} (Inr [])
        (mk_AlignData ''read2'' ''AACATGAA'' ''!!!!!!!!'' []) [4]
      = Inr [mk_AlignData ''read2:1_2'' ''AACA'' ''!!!!'' [''MI:Z:read2'', ''Xc:B:i,0,4,0,2''],
             mk_AlignData ''read2:2_2'' ''TGAA'' ''!!!!'' [''MI:Z:read2'', ''Xc:B:i,4,8,1,2'']]"
proof -
  let ?MT = "{''Ml'', ''ML'', ''Mm'', ''MM''}"
  let ?r = "mk_AlignData ''read1'' ''AACCGGTTCC'' ''*''
              [''MM:Z:C+m,0,0;'', ''ML:B:C,200,100'', ''RG:Z:x'']"
  let ?mb = "[([PStr ''C'', PInt 0, PStr ''m''], [(2 :: int, 200 :: int), (3, 100)])]"
  let ?cs = "[mk_AlignData ''read1:1_2'' ''AACCG'' ''*''
               [''RG:Z:x'', ''MI:Z:read1'', ''Xc:B:i,0,5,0,2'', ''MM:Z:C+m,0,0;'', ''ML:B:C,200,100;''],
             mk_AlignData ''read1:2_2'' ''GTTCC'' []
               [''RG:Z:x'', ''MI:Z:read1'', ''Xc:B:i,5,10,1,2'', ''MM:Z:'', ''ML:B:'']]"
  let ?r2 = "mk_AlignData ''read2'' ''AACATGAA'' ''!!!!!!!!'' []"
  have h: "\<forall>p \<in> set [5]. 0 \<le> p \<and> p \<le> int (length (seq ?r))"
    by (simp add: mk_AlignData_def)
  have h2: "\<forall>p \<in> set [4]. 0 \<le> p \<and> p \<le> int (length (seq ?r2))"
    by (simp add: mk_AlignData_def)
  have iv: "split_intervals ?r [5] = [(0, 5), (5, 10)]"
    by (simp add: split_intervals_def split_positions_def intervals_of_def mk_AlignData_def)
  have n: "int (length (seq ?r)) = 10" "seq ?r = ''AACCGGTTCC''" by (simp_all add: mk_AlignData_def)
  have u: "[0..(9::int)] = [0, 1, 2, 3, 4, 5, 6, 7, 8, 9]" by code_simp
  have s: "split ?MT (Inr ?mb) ?r [5] = Inr ?cs" by code_simp
  have nm: "\<not> has_mods ?MT ?r2" by code_simp
  have s2: "split ?MT (Inr []) ?r2 [4]
      = Inr [mk_AlignData ''read2:1_2'' ''AACA'' ''!!!!'' [''MI:Z:read2'', ''Xc:B:i,0,4,0,2''],
             mk_AlignData ''read2:2_2'' ''TGAA'' ''!!!!'' [''MI:Z:read2'', ''Xc:B:i,4,8,1,2'']]"
    by code_simp
  note t = split_intervals_tile [OF h, of ?MT "Inr ?mb"]
  note t2 = split_intervals_tile [OF h2, of ?MT "Inr []"]
  from t iv n u have a: "tiles 0 10 [(0, 5), (5, 10)]
      \<and> covered [(0, 5), (5, 10)] = [0, 1, 2, 3, 4, 5, 6, 7, 8, 9]" by simp
  from t s n have b: "concat (map seq ?cs) = ''AACCGGTTCC''" by simp
  from t2 nm have "\<exists>cs. split ?MT (Inr []) ?r2 [4] = Inr cs" by blast
  with a b h h2 iv s nm s2 show ?thesis by simp
qed

text \<open>
  C1 as stated, for every list of offsets, fails at an offset beyond the end of the read:
  for offset 10 on a read of length 4, \<open>split\<close> returns two children, for the intervals
  \<open>(0, 10)\<close> and \<open>(10, 4)\<close>, which do not tile \<open>[0, 4)\<close>.
\<close>

theorem split_intervals_tile_counterexample:
  "split {''Ml'', ''ML'', ''Mm'', ''MM''} (Inr []) (mk_AlignData ''read1'' ''ACGT'' ''!!!!'' []) [10]
     = Inr [mk_AlignData ''read1:1_2'' ''ACGT'' ''!!!!'' [''MI:Z:read1'', ''Xc:B:i,0,10,0,2''],
            mk_AlignData ''read1:2_2'' [] [] [''MI:Z:read1'', ''Xc:B:i,10,4,1,2'']]
   \<and> split_intervals (mk_AlignData ''read1'' ''ACGT'' ''!!!!'' []) [10] = [(0, 10), (10, 4)]
   \<and> \<not> tiles 0 (int (length (seq (mk_AlignData ''read1'' ''ACGT'' ''!!!!'' []))))
            (split_intervals (mk_AlignData ''read1'' ''ACGT'' ''!!!!'' []) [10])
   \<and> covered (split_intervals (mk_AlignData ''read1'' ''ACGT'' ''!!!!'' []) [10])
       \<noteq> [0..int (length (seq (mk_AlignData ''read1'' ''ACGT'' ''!!!!'' []))) - 1]"
proof -
  let ?r = "mk_AlignData ''read1'' ''ACGT'' ''!!!!'' []"
  have s: "split {''Ml'', ''ML'', ''Mm'', ''MM''} (Inr []) ?r [10]
     = Inr [mk_AlignData ''read1:1_2'' ''ACGT'' ''!!!!'' [''MI:Z:read1'', ''Xc:B:i,0,10,0,2''],
            mk_AlignData ''read1:2_2'' [] [] [''MI:Z:read1'', ''Xc:B:i,10,4,1,2'']]"
    by code_simp
  have iv: "split_intervals ?r [10] = [(0, 10), (10, 4)]"
    by (simp add: split_intervals_def split_positions_def intervals_of_def mk_AlignData_def)
  have n: "int (length (seq ?r)) = 4" by (simp add: mk_AlignData_def)
  have c: "length (covered [(0, 10), (10, 4)]) = 10" by (simp add: covered_def)
  have d: "length [0..(4::int) - 1] = 4" by simp
  have "covered [(0, 10), (10, 4)] \<noteq> [0..(4::int) - 1]"
  proof
    assume "covered [(0, 10), (10, 4)] = [0..(4::int) - 1]"
    then have "length (covered [(0, 10), (10, 4)]) = length [0..(4::int) - 1]" by simp
    with c d show False by simp
  qed
  with s iv n show ?thesis by simp
qed

text \<open>
  C2 (as amended). When the list of cut offsets is not empty, \<open>split\<close> sorts it and keeps
  duplicates; it puts 0 in front when the smallest offset is not 0 and \<open>len(sequence)\<close> at
  the end when the largest offset is not \<open>len(sequence)\<close>. For distinct offsets that lie in
  \<open>[0, len(sequence)]\<close> this is the list of the specification: sorted, deduplicated, 0
  prepended if absent and \<open>len(sequence)\<close> appended if absent.
\<close>

theorem split_positions_sorted_padded:
  assumes "positions \<noteq> []"
  shows "split_positions n positions
           = (if Min (set positions) \<noteq> 0 then [0] else []) @ sort positions
             @ (if Max (set positions) \<noteq> n then [n] else [])
       \<and> (distinct positions \<and> (\<forall>p \<in> set positions. 0 \<le> p \<and> p \<le> n)
            \<longrightarrow> split_positions n positions = split_positions_spec n positions)"
  using assms split_positions_general [of positions n] split_positions_eq_spec [of positions n]
  by blast

theorem split_positions_sorted_padded_witness:
  "[6, 4] \<noteq> ([] :: int list)
   \<and> split_positions 8 [6, 4] = [0, 4, 6, 8]
   \<and> distinct [6, 4 :: int] \<and> (0::int) \<le> 6 \<and> (6::int) \<le> 8 \<and> (0::int) \<le> 4 \<and> (4::int) \<le> 8
   \<and> split_positions_spec 8 [6, 4] = [0, 4, 6, 8]"
proof -
  have h: "[6, 4] \<noteq> ([] :: int list)" by simp
  have d: "distinct [6, 4 :: int] \<and> (\<forall>p \<in> set [6, 4 :: int]. 0 \<le> p \<and> p \<le> 8)" by simp
  have v: "split_positions 8 [6, 4] = [0, 4, 6, 8]" by (simp add: split_positions_def)
  from split_positions_sorted_padded [OF h, of 8] d v show ?thesis by simp
qed

text \<open>
  C2 as stated fails on a repeated offset: \<open>sorted\<close> keeps both copies, so the offsets
  \<open>[2, 2]\<close> on a read of length 4 give \<open>[0, 2, 2, 4]\<close>, not \<open>[0, 2, 4]\<close>.
\<close>

theorem split_positions_dedup_counterexample:
  "split_positions 4 [2, 2] = [0, 2, 2, 4] \<and> split_positions_spec 4 [2, 2] = [0, 2, 4]"
  by (simp add: split_positions_def split_positions_spec_def)

text \<open>
  C3 (as amended). \<open>split\<close> does not check the offsets: for a record without modification
  tags it returns one child per interval whatever the offsets are, so an offset outside
  \<open>[0, len(sequence)]\<close> raises nothing and is used as it is. The offsets used for splitting
  all satisfy \<open>0 \<le> offset \<le> len(sequence)\<close> exactly when the requested offsets all do.
\<close>

theorem split_offsets_unchecked:
  "(\<not> has_mods MOD_TAGS r \<longrightarrow>
      (\<exists>cs. split MOD_TAGS decoded r positions = Inr cs
            \<and> length cs = length (split_intervals r positions)))
   \<and> ((\<forall>p \<in> set positions. 0 \<le> p \<and> p \<le> int (length (seq r)))
        = (\<forall>p \<in> set (split_positions (int (length (seq r))) positions).
             0 \<le> p \<and> p \<le> int (length (seq r))))"
proof -
  have "\<not> has_mods MOD_TAGS r \<Longrightarrow> \<exists>cs. split MOD_TAGS decoded r positions = Inr cs
            \<and> length cs = length (split_intervals r positions)"
    by (simp add: split_no_mods)
  moreover have "(\<forall>p \<in> set positions. 0 \<le> p \<and> p \<le> int (length (seq r)))
        = (\<forall>p \<in> set (split_positions (int (length (seq r))) positions).
             0 \<le> p \<and> p \<le> int (length (seq r)))"
    by (rule in_range_split_positions [symmetric]) simp
  ultimately show ?thesis by blast
qed

theorem split_offsets_unchecked_witness:
  "\<not> has_mods {''Ml'', ''ML'', ''Mm'', ''MM''} (mk_AlignData ''read1'' ''AACATGAA'' ''!!!!!!!!'' [])
   \<and> split {''Ml'', ''ML'', ''Mm'', ''MM''} (Inr [])
        (mk_AlignData ''read1'' ''AACATGAA'' ''!!!!!!!!'' []) [4]
      = Inr [mk_AlignData ''read1:1_2'' ''AACA'' ''!!!!'' [''MI:Z:read1'', ''Xc:B:i,0,4,0,2''],
             mk_AlignData ''read1:2_2'' ''TGAA'' ''!!!!'' [''MI:Z:read1'', ''Xc:B:i,4,8,1,2'']]
   \<and> (0::int) \<le> 4 \<and> 4 \<le> int (length (seq (mk_AlignData ''read1'' ''AACATGAA'' ''!!!!!!!!'' [])))
   \<and> split_positions (int (length (seq (mk_AlignData ''read1'' ''AACATGAA'' ''!!!!!!!!'' [])))) [4]
      = [0, 4, 8]"
proof -
  let ?r = "mk_AlignData ''read1'' ''AACATGAA'' ''!!!!!!!!'' []"
  let ?MT = "{''Ml'', ''ML'', ''Mm'', ''MM''}"
  have h: "\<not> has_mods ?MT ?r" by code_simp
  have s: "split ?MT (Inr []) ?r [4]
      = Inr [mk_AlignData ''read1:1_2'' ''AACA'' ''!!!!'' [''MI:Z:read1'', ''Xc:B:i,0,4,0,2''],
             mk_AlignData ''read1:2_2'' ''TGAA'' ''!!!!'' [''MI:Z:read1'', ''Xc:B:i,4,8,1,2'']]"
    by code_simp
  have n: "int (length (seq ?r)) = 8" by (simp add: mk_AlignData_def)
  have p: "split_positions 8 [4] = [0, 4, 8]" by (simp add: split_positions_def)
  from split_offsets_unchecked [of ?MT ?r "Inr []" "[4]"] h s n p show ?thesis by simp
qed

text \<open>
  C3 as stated fails: splitting a read of length 4 at offset 10 raises no error; it returns
  two children, for the intervals \<open>(0, 10)\<close> and \<open>(10, 4)\<close>.
\<close>

theorem split_offsets_unchecked_counterexample:
  "split {''Ml'', ''ML'', ''Mm'', ''MM''} (Inr []) (mk_AlignData ''read1'' ''ACGT'' ''!!!!'' []) [10]
   = Inr [mk_AlignData ''read1:1_2'' ''ACGT'' ''!!!!'' [''MI:Z:read1'', ''Xc:B:i,0,10,0,2''],
          mk_AlignData ''read1:2_2'' [] [] [''MI:Z:read1'', ''Xc:B:i,10,4,1,2'']]"
  by code_simp

section \<open>Claims about the modification tags\<close>

text \<open>
  C4. When \<open>get_subread\<close> returns a child, every modification key that has a pair inside
  the interval has as many deltas as selected probabilities. When some such key has a
  different number of deltas, \<open>get_subread\<close> returns no child: it raises, and the
  exception is the \<open>AssertionError\<close> of the encoding loop when every key has three or four
  elements.
\<close>

theorem get_subread_delta_count:
  "(\<forall>c. get_subread MOD_TAGS r start stop nm add_mi_tag add_xc_tag subread_index (Some mb) = Inr c
        \<longrightarrow> (\<forall>item \<in> set mb. survives start stop item \<longrightarrow>
               length (key_deltas start stop (py_slice (seq r) start stop) item)
                 = length (key_probs start stop item)))
   \<and> ((\<exists>item \<in> set mb. survives start stop item
          \<and> length (key_deltas start stop (py_slice (seq r) start stop) item)
               \<noteq> length (key_probs start stop item))
        \<longrightarrow> (\<exists>e. get_subread MOD_TAGS r start stop nm add_mi_tag add_xc_tag subread_index (Some mb)
                   = Inl e))
   \<and> ((\<exists>item \<in> set mb. survives start stop item
          \<and> length (key_deltas start stop (py_slice (seq r) start stop) item)
               \<noteq> length (key_probs start stop item))
        \<and> (\<forall>item \<in> set mb. length (fst item) = 3 \<or> length (fst item) = 4)
        \<longrightarrow> get_subread MOD_TAGS r start stop nm add_mi_tag add_xc_tag subread_index (Some mb)
              = Inl AssertionError)"
proof -
  let ?g = "get_subread MOD_TAGS r start stop nm add_mi_tag add_xc_tag subread_index (Some mb)"
  let ?bad = "\<exists>item \<in> set mb. survives start stop item
          \<and> length (key_deltas start stop (py_slice (seq r) start stop) item)
               \<noteq> length (key_probs start stop item)"
  have a: "\<And>c. ?g = Inr c \<Longrightarrow> \<not> ?bad"
    using get_subread_mods_counts [of MOD_TAGS r start stop nm add_mi_tag add_xc_tag subread_index mb]
    by blast
  have b: "?bad \<Longrightarrow> \<exists>e. ?g = Inl e"
    using a by (cases ?g) auto
  have c: "?bad \<Longrightarrow> (\<forall>item \<in> set mb. length (fst item) = 3 \<or> length (fst item) = 4)
             \<Longrightarrow> ?g = Inl AssertionError"
  proof -
    assume bad: ?bad and ar: "\<forall>item \<in> set mb. length (fst item) = 3 \<or> length (fst item) = 4"
    from b [OF bad] obtain e where e: "?g = Inl e" by blast
    from get_subread_mods_Inl [OF e] ar have "e = AssertionError" by auto
    with e show ?thesis by simp
  qed
  from a b c show ?thesis by blast
qed

theorem get_subread_delta_count_witness:
  "get_subread {''Ml'', ''ML'', ''Mm'', ''MM''}
      (mk_AlignData ''read1'' ''AACCGGTTCC'' ''*'' [''MM:Z:C+m,0,0;'', ''ML:B:C,200,100'', ''RG:Z:x''])
      0 5 ''read1:1_2'' True True (Some (0, 2))
      (Some [([PStr ''C'', PInt 0, PStr ''m''], [(2, 200), (3, 100)])])
    = Inr (mk_AlignData ''read1:1_2'' ''AACCG'' ''*''
             [''RG:Z:x'', ''MI:Z:read1'', ''Xc:B:i,0,5,0,2'', ''MM:Z:C+m,0,0;'', ''ML:B:C,200,100;''])
   \<and> survives 0 5 ([PStr ''C'', PInt 0, PStr ''m''], [(2, 200), (3, 100)])
   \<and> length (key_deltas 0 5 ''AACCG'' ([PStr ''C'', PInt 0, PStr ''m''], [(2, 200), (3, 100)])) = 2
   \<and> length (key_probs 0 5 ([PStr ''C'', PInt 0, PStr ''m''], [(2, 200), (3, 100)])) = 2
   \<and> survives 0 4 ([PStr ''N'', PInt 0, PStr ''m''], [(0, 200)])
   \<and> length (key_deltas 0 4 ''ACGT'' ([PStr ''N'', PInt 0, PStr ''m''], [(0, 200)])) = 0
   \<and> length (key_probs 0 4 ([PStr ''N'', PInt 0, PStr ''m''], [(0, 200)])) = 1
   \<and> length (fst ([PStr ''N'', PInt 0, PStr ''m''], [(0 :: int, 200 :: int)])) = 3
   \<and> get_subread {''Ml'', ''ML'', ''Mm'', ''MM''}
        (mk_AlignData ''read2'' ''ACGT'' ''!!!!'' [''MM:Z:N+m,0;'', ''ML:B:C,200''])
        0 4 ''read2:1_1'' True True (Some (0, 1))
        (Some [([PStr ''N'', PInt 0, PStr ''m''], [(0, 200)])])
      = Inl AssertionError"
proof -
  let ?MT = "{''Ml'', ''ML'', ''Mm'', ''MM''}"
  let ?r1 = "mk_AlignData ''read1'' ''AACCGGTTCC'' ''*'' [''MM:Z:C+m,0,0;'', ''ML:B:C,200,100'', ''RG:Z:x'']"
  let ?i1 = "([PStr ''C'', PInt 0, PStr ''m''], [(2 :: int, 200 :: int), (3, 100)])"
  let ?r2 = "mk_AlignData ''read2'' ''ACGT'' ''!!!!'' [''MM:Z:N+m,0;'', ''ML:B:C,200'']"
  let ?i2 = "([PStr ''N'', PInt 0, PStr ''m''], [(0 :: int, 200 :: int)])"
  have g1: "get_subread ?MT ?r1 0 5 ''read1:1_2'' True True (Some (0, 2)) (Some [?i1])
    = Inr (mk_AlignData ''read1:1_2'' ''AACCG'' ''*''
             [''RG:Z:x'', ''MI:Z:read1'', ''Xc:B:i,0,5,0,2'', ''MM:Z:C+m,0,0;'', ''ML:B:C,200,100;''])"
    by code_simp
  have sv1: "survives 0 5 ?i1" by code_simp
  have sl1: "py_slice (seq ?r1) 0 5 = ''AACCG''" by code_simp
  have p1: "length (key_probs 0 5 ?i1) = 2" by code_simp
  have sv2: "survives 0 4 ?i2" by code_simp
  have sl2: "py_slice (seq ?r2) 0 4 = ''ACGT''" by code_simp
  have d2: "length (key_deltas 0 4 ''ACGT'' ?i2) = 0" by code_simp
  have p2: "length (key_probs 0 4 ?i2) = 1" by code_simp
  note t1 = get_subread_delta_count [of ?MT ?r1 0 5 "''read1:1_2''" True True "Some (0, 2)" "[?i1]"]
  note t2 = get_subread_delta_count [of ?MT ?r2 0 4 "''read2:1_1''" True True "Some (0, 1)" "[?i2]"]
  from t1 g1 sv1 sl1 p1 have d1: "length (key_deltas 0 5 ''AACCG'' ?i1) = 2" by simp
  from t2 sv2 sl2 d2 p2
  have g2: "get_subread ?MT ?r2 0 4 ''read2:1_1'' True True (Some (0, 1)) (Some [?i2])
      = Inl AssertionError" by simp
  from g1 sv1 d1 p1 sv2 d2 p2 g2 show ?thesis by simp
qed

text \<open>
  C5. When \<open>get_subread\<close> re-encodes a mapping that is not empty and returns a child, the
  child's last two tags are \<open>MM:Z:\<close> and \<open>ML:B:\<close> followed by one entry for each key that
  has a pair inside \<open>[start, stop)\<close>, in the order of the mapping, and by nothing for the
  other keys. For each key the pairs read through the index list of line 93 are exactly
  the pairs whose offset satisfies \<open>start \<le> offset < stop\<close>, their probabilities are the
  ones written, and the key has an entry exactly when one of its pairs qualifies.
\<close>

theorem get_subread_mod_selection:
  assumes "get_subread MOD_TAGS r start stop nm add_mi_tag add_xc_tag subread_index (Some mb) = Inr c"
    and "mb \<noteq> []"
  shows "tags c = base_tags MOD_TAGS r start stop add_mi_tag add_xc_tag subread_index @
           [''MM:Z:'' @ concat (map (mm_entry start stop (py_slice (seq r) start stop))
                                  (filter (survives start stop) mb)),
            ''ML:B:'' @ concat (map (ml_entry start stop) (filter (survives start stop) mb))]
       \<and> (\<forall>item \<in> set mb.
            map (\<lambda>i. snd item ! i) (overlap_idx start stop (snd item))
              = filter (\<lambda>p. start \<le> fst p \<and> fst p < stop) (snd item)
            \<and> key_probs start stop item
              = map snd (filter (\<lambda>p. start \<le> fst p \<and> fst p < stop) (snd item))
            \<and> survives start stop item
              = (\<exists>p \<in> set (snd item). start \<le> fst p \<and> fst p < stop))"
proof -
  have sel: "\<And>md. selected start stop md = filter (\<lambda>p. start \<le> fst p \<and> fst p < stop) md"
    by (simp add: selected_def in_interval_def [abs_def])
  have "\<forall>item \<in> set mb.
            map (\<lambda>i. snd item ! i) (overlap_idx start stop (snd item))
              = filter (\<lambda>p. start \<le> fst p \<and> fst p < stop) (snd item)
            \<and> key_probs start stop item
              = map snd (filter (\<lambda>p. start \<le> fst p \<and> fst p < stop) (snd item))
            \<and> survives start stop item
              = (\<exists>p \<in> set (snd item). start \<le> fst p \<and> fst p < stop)"
    by (auto simp: overlap_idx_selected sel key_probs_def survives_def filter_empty_conv)
  with get_subread_mods_Inr [OF assms] show ?thesis by blast
qed

theorem get_subread_mod_selection_witness:
  "[([PStr ''C'', PInt 0, PStr ''m''], [(2 :: int, 200 :: int), (8, 100)]),
    ([PStr ''A'', PInt 1, PStr ''a''], [(0, 7)])] \<noteq> []
   \<and> get_subread {''Ml'', ''ML'', ''Mm'', ''MM''}
        (mk_AlignData ''read1'' ''AACCGGTTCC'' ''*'' [''MM:Z:C+m,0,2;A-a,0;'', ''ML:B:C,200,100,7'', ''RG:Z:x''])
        5 10 ''read1:2_2'' True True (Some (1, 2))
        (Some [([PStr ''C'', PInt 0, PStr ''m''], [(2, 200), (8, 100)]),
               ([PStr ''A'', PInt 1, PStr ''a''], [(0, 7)])])
      = Inr (mk_AlignData ''read1:2_2'' ''GTTCC'' []
               [''RG:Z:x'', ''MI:Z:read1'', ''Xc:B:i,5,10,1,2'', ''MM:Z:C+m,0;'', ''ML:B:C,100;''])
   \<and> filter (survives 5 10)
         [([PStr ''C'', PInt 0, PStr ''m''], [(2, 200), (8, 100)]),
          ([PStr ''A'', PInt 1, PStr ''a''], [(0, 7)])]
       = [([PStr ''C'', PInt 0, PStr ''m''], [(2, 200), (8, 100)])]
   \<and> overlap_idx 5 10 [(2, 200), (8, 100)] = [1]
   \<and> key_probs 5 10 ([PStr ''C'', PInt 0, PStr ''m''], [(2, 200), (8, 100)]) = [100]
   \<and> overlap_idx 5 10 [(0, 7)] = []"
proof -
  let ?MT = "{''Ml'', ''ML'', ''Mm'', ''MM''}"
  let ?r = "mk_AlignData ''read1'' ''AACCGGTTCC'' ''*'' [''MM:Z:C+m,0,2;A-a,0;'', ''ML:B:C,200,100,7'', ''RG:Z:x'']"
  let ?mb = "[([PStr ''C'', PInt 0, PStr ''m''], [(2 :: int, 200 :: int), (8, 100)]),
              ([PStr ''A'', PInt 1, PStr ''a''], [(0, 7)])]"
  let ?c = "mk_AlignData ''read1:2_2'' ''GTTCC'' []
               [''RG:Z:x'', ''MI:Z:read1'', ''Xc:B:i,5,10,1,2'', ''MM:Z:C+m,0;'', ''ML:B:C,100;'']"
  have ne: "?mb \<noteq> []" by simp
  have g: "get_subread ?MT ?r 5 10 ''read1:2_2'' True True (Some (1, 2)) (Some ?mb) = Inr ?c"
    by code_simp
  have f: "filter (survives 5 10) ?mb = [([PStr ''C'', PInt 0, PStr ''m''], [(2, 200), (8, 100)])]"
    by code_simp
  have o1: "overlap_idx 5 10 [(2, 200), (8, 100)] = [1]" by code_simp
  have o2: "overlap_idx 5 10 [(0, 7)] = []" by code_simp
  note t = get_subread_mod_selection [OF g ne]
  from t have "key_probs 5 10 ([PStr ''C'', PInt 0, PStr ''m''], [(2, 200), (8, 100)]) = [100]"
    by simp
  with ne g f o1 o2 show ?thesis by simp
qed

section \<open>Claims about the children of \<open>split\<close>\<close>

text \<open>
  C6. Splitting a record with an empty list of cut offsets should yield exactly one child,
  with the parent's sequence and the name of the parent followed by \<open>:1_1\<close>. The code
  does not on a record with a modification whose canonical base is \<open>N\<close> (any base, in the
  SAM format): \<open>pysam\<close> decodes \<open>MM:Z:N+m,0;\<close> on \<open>ACGT\<close> to the key \<open>('N', 0, 'm')\<close> with
  the pair \<open>(0, 200)\<close>; line 106 looks for the letter \<open>N\<close> in the sequence and finds no
  position, no delta is written for the one probability, and the \<open>assert\<close> of line 119
  fails for the single interval \<open>(0, 4)\<close>.
\<close>

theorem split_no_cut_assertion_failure:
  "has_mods {''Ml'', ''ML'', ''Mm'', ''MM''}
     (mk_AlignData ''read2'' ''ACGT'' ''!!!!'' [''MM:Z:N+m,0;'', ''ML:B:C,200''])
   \<and> split_intervals (mk_AlignData ''read2'' ''ACGT'' ''!!!!'' [''MM:Z:N+m,0;'', ''ML:B:C,200'']) []
      = [(0, 4)]
   \<and> split {''Ml'', ''ML'', ''Mm'', ''MM''} (Inr [([PStr ''N'', PInt 0, PStr ''m''], [(0, 200)])])
        (mk_AlignData ''read2'' ''ACGT'' ''!!!!'' [''MM:Z:N+m,0;'', ''ML:B:C,200'']) []
      = Inl AssertionError"
  by code_simp




text \<open>
  C8. The quality of every child that \<open>split\<close> returns is the slice
  \<open>parent.qual[start:end]\<close> of its interval. When the parent's quality is the placeholder
  \<open>*\<close>, a child whose interval starts at 0 and ends at 1 or later has quality \<open>*\<close>, and a
  child whose interval starts at 1 or later has the empty quality, which \<open>to_fastq\<close>
  writes without raising.
\<close>

theorem split_child_qual:
  assumes "split MOD_TAGS decoded r positions = Inr cs" and "i < length cs"
  shows "qual (cs ! i)
           = py_slice (qual r) (fst (split_intervals r positions ! i))
               (snd (split_intervals r positions ! i))
       \<and> (qual r = ''*'' \<longrightarrow>
            (fst (split_intervals r positions ! i) = 0 \<and> 1 \<le> snd (split_intervals r positions ! i)
               \<longrightarrow> qual (cs ! i) = ''*'')
            \<and> (1 \<le> fst (split_intervals r positions ! i)
               \<longrightarrow> qual (cs ! i) = [] \<and> (\<exists>txt. to_fastq (cs ! i) with_tags = Inr txt)))"
proof -
  let ?iv = "split_intervals r positions ! i"
  from split_Inr [OF assms(1)] assms(2)
  have g: "get_subread MOD_TAGS r (fst ?iv) (snd ?iv)
             (subread_name r i (length (split_intervals r positions))) True True
             (Some (int i, int (length (split_intervals r positions))))
             (split_mods MOD_TAGS decoded r) = Inr (cs ! i)"
    by simp
  from get_subread_fields [OF g] have q: "qual (cs ! i) = py_slice (qual r) (fst ?iv) (snd ?iv)"
    by simp
  have "qual (cs ! i) = [] \<Longrightarrow> \<exists>txt. to_fastq (cs ! i) with_tags = Inr txt"
    by (simp add: to_fastq_def Let_def)
  with q show ?thesis by (auto simp: py_slice_star_head py_slice_star_tail)
qed

theorem split_child_qual_witness:
  "split {''Ml'', ''ML'', ''Mm'', ''MM''} (Inr [])
      (mk_AlignData ''read1'' ''AACCGGTTCC'' ''*'' [''RG:Z:x'']) [5]
    = Inr [mk_AlignData ''read1:1_2'' ''AACCG'' ''*'' [''RG:Z:x'', ''MI:Z:read1'', ''Xc:B:i,0,5,0,2''],
           mk_AlignData ''read1:2_2'' ''GTTCC'' [] [''RG:Z:x'', ''MI:Z:read1'', ''Xc:B:i,5,10,1,2'']]
   \<and> (1::nat) < length
        [mk_AlignData ''read1:1_2'' ''AACCG'' ''*'' [''RG:Z:x'', ''MI:Z:read1'', ''Xc:B:i,0,5,0,2''],
         mk_AlignData ''read1:2_2'' ''GTTCC'' [] [''RG:Z:x'', ''MI:Z:read1'', ''Xc:B:i,5,10,1,2'']]
   \<and> qual (mk_AlignData ''read1'' ''AACCGGTTCC'' ''*'' [''RG:Z:x'']) = ''*''
   \<and> split_intervals (mk_AlignData ''read1'' ''AACCGGTTCC'' ''*'' [''RG:Z:x'']) [5] ! 0 = (0, 5)
   \<and> qual (mk_AlignData ''read1:1_2'' ''AACCG'' ''*'' [''RG:Z:x'', ''MI:Z:read1'', ''Xc:B:i,0,5,0,2''])
        = ''*''
   \<and> split_intervals (mk_AlignData ''read1'' ''AACCGGTTCC'' ''*'' [''RG:Z:x'']) [5] ! 1 = (5, 10)
   \<and> qual (mk_AlignData ''read1:2_2'' ''GTTCC'' [] [''RG:Z:x'', ''MI:Z:read1'', ''Xc:B:i,5,10,1,2''])
        = []
   \<and> to_fastq (mk_AlignData ''read1:2_2'' ''GTTCC'' []
                 [''RG:Z:x'', ''MI:Z:read1'', ''Xc:B:i,5,10,1,2'']) False
        = Inr (''@read1:2_2 '' @ [CHR 0x0A] @ ''GTTCC'' @ [CHR 0x0A] @ ''+'' @ [CHR 0x0A] @ [CHR 0x0A])"
proof -
  let ?MT = "{''Ml'', ''ML'', ''Mm'', ''MM''}"
  let ?r = "mk_AlignData ''read1'' ''AACCGGTTCC'' ''*'' [''RG:Z:x'']"
  let ?c1 = "mk_AlignData ''read1:1_2'' ''AACCG'' ''*'' [''RG:Z:x'', ''MI:Z:read1'', ''Xc:B:i,0,5,0,2'']"
  let ?c2 = "mk_AlignData ''read1:2_2'' ''GTTCC'' [] [''RG:Z:x'', ''MI:Z:read1'', ''Xc:B:i,5,10,1,2'']"
  have s: "split ?MT (Inr []) ?r [5] = Inr [?c1, ?c2]" by code_simp
  have i0: "(0::nat) < length [?c1, ?c2]" and i1: "(1::nat) < length [?c1, ?c2]" by simp_all
  have q: "qual ?r = ''*''" by (simp add: mk_AlignData_def)
  have v0: "split_intervals ?r [5] ! 0 = (0, 5)" by code_simp
  have v1: "split_intervals ?r [5] ! 1 = (5, 10)" by code_simp
  have f: "to_fastq ?c2 False
        = Inr (''@read1:2_2 '' @ [CHR 0x0A] @ ''GTTCC'' @ [CHR 0x0A] @ ''+'' @ [CHR 0x0A] @ [CHR 0x0A])"
    by (simp add: to_fastq_def mk_AlignData_def)
  from split_child_qual [OF s i0, of False] q v0 have a: "qual ?c1 = ''*''"
    by (simp add: py_slice_star_head)
  from split_child_qual [OF s i1, of False] q v1 have b: "qual ?c2 = []"
    by (simp add: py_slice_star_tail)
  from s i1 q v0 v1 a b f show ?thesis by simp
qed

text \<open>
  C9. When the parent has modification tags and its decoded mapping is not empty, the tags
  of every child that \<open>split\<close> returns end with an \<open>MM:Z:\<close> tag and an \<open>ML:B:\<close> tag, which
  hold one entry per key with a pair inside the child's interval. For a child whose
  interval holds no pair of any key, the two tags are exactly \<open>MM:Z:\<close> and \<open>ML:B:\<close>.
\<close>

theorem split_mod_tags_always:
  assumes "split MOD_TAGS decoded r positions = Inr cs" and "has_mods MOD_TAGS r"
    and "decoded = Inr mb" and "mb \<noteq> []" and "i < length cs"
  shows "tags (cs ! i)
           = base_tags MOD_TAGS r (fst (split_intervals r positions ! i))
               (snd (split_intervals r positions ! i)) True True (Some (int i, int (length cs)))
             @ [''MM:Z:'' @ concat (map (mm_entry (fst (split_intervals r positions ! i))
                                          (snd (split_intervals r positions ! i))
                                          (seq (cs ! i)))
                                     (filter (survives (fst (split_intervals r positions ! i))
                                                (snd (split_intervals r positions ! i))) mb)),
                ''ML:B:'' @ concat (map (ml_entry (fst (split_intervals r positions ! i))
                                          (snd (split_intervals r positions ! i)))
                                     (filter (survives (fst (split_intervals r positions ! i))
                                                (snd (split_intervals r positions ! i))) mb))]
       \<and> ((\<forall>item \<in> set mb. \<forall>p \<in> set (snd item).
              \<not> (fst (split_intervals r positions ! i) \<le> fst p
                  \<and> fst p < snd (split_intervals r positions ! i)))
            \<longrightarrow> tags (cs ! i)
                  = base_tags MOD_TAGS r (fst (split_intervals r positions ! i))
                      (snd (split_intervals r positions ! i)) True True
                      (Some (int i, int (length cs)))
                    @ [''MM:Z:'', ''ML:B:''])"
proof -
  let ?iv = "split_intervals r positions ! i"
  let ?n = "length (split_intervals r positions)"
  from split_Inr [OF assms(1)] assms(5)
  have len: "length cs = ?n"
    and g0: "get_subread MOD_TAGS r (fst ?iv) (snd ?iv) (subread_name r i ?n) True True
             (Some (int i, int ?n)) (split_mods MOD_TAGS decoded r) = Inr (cs ! i)"
    by simp_all
  have m: "split_mods MOD_TAGS decoded r = Some mb" using assms(2,3) by (simp add: split_mods_def)
  from g0 m have g: "get_subread MOD_TAGS r (fst ?iv) (snd ?iv) (subread_name r i ?n) True True
             (Some (int i, int ?n)) (Some mb) = Inr (cs ! i)" by simp
  from get_subread_fields [OF g] have sq: "seq (cs ! i) = py_slice (seq r) (fst ?iv) (snd ?iv)"
    by simp
  note t = get_subread_mods_Inr [OF g assms(4)]
  have e: "(\<forall>item \<in> set mb. \<forall>p \<in> set (snd item). \<not> (fst ?iv \<le> fst p \<and> fst p < snd ?iv))
        \<Longrightarrow> filter (survives (fst ?iv) (snd ?iv)) mb = []"
    by (auto simp: filter_empty_conv survives_def selected_def in_interval_def)
  from t sq len e show ?thesis by auto
qed

theorem split_mod_tags_always_witness:
  "split {''Ml'', ''ML'', ''Mm'', ''MM''}
      (Inr [([PStr ''C'', PInt 0, PStr ''m''], [(2, 200), (3, 100)])])
      (mk_AlignData ''read1'' ''AACCGGTTCC'' ''*'' [''MM:Z:C+m,0,0;'', ''ML:B:C,200,100'', ''RG:Z:x'']) [5]
    = Inr [mk_AlignData ''read1:1_2'' ''AACCG'' ''*''
             [''RG:Z:x'', ''MI:Z:read1'', ''Xc:B:i,0,5,0,2'', ''MM:Z:C+m,0,0;'', ''ML:B:C,200,100;''],
           mk_AlignData ''read1:2_2'' ''GTTCC'' []
             [''RG:Z:x'', ''MI:Z:read1'', ''Xc:B:i,5,10,1,2'', ''MM:Z:'', ''ML:B:'']]
   \<and> has_mods {''Ml'', ''ML'', ''Mm'', ''MM''}
        (mk_AlignData ''read1'' ''AACCGGTTCC'' ''*'' [''MM:Z:C+m,0,0;'', ''ML:B:C,200,100'', ''RG:Z:x''])
   \<and> [([PStr ''C'', PInt 0, PStr ''m''], [(2 :: int, 200 :: int), (3, 100)])] \<noteq> []
   \<and> split_intervals
        (mk_AlignData ''read1'' ''AACCGGTTCC'' ''*'' [''MM:Z:C+m,0,0;'', ''ML:B:C,200,100'', ''RG:Z:x''])
        [5] ! 1 = (5, 10)
   \<and> \<not> ((5::int) \<le> 2 \<and> (2::int) < 10) \<and> \<not> ((5::int) \<le> 3 \<and> (3::int) < 10)
   \<and> base_tags {''Ml'', ''ML'', ''Mm'', ''MM''}
        (mk_AlignData ''read1'' ''AACCGGTTCC'' ''*'' [''MM:Z:C+m,0,0;'', ''ML:B:C,200,100'', ''RG:Z:x''])
        5 10 True True (Some (1, 2))
      = [''RG:Z:x'', ''MI:Z:read1'', ''Xc:B:i,5,10,1,2'']
   \<and> tags (mk_AlignData ''read1:2_2'' ''GTTCC'' []
             [''RG:Z:x'', ''MI:Z:read1'', ''Xc:B:i,5,10,1,2'', ''MM:Z:'', ''ML:B:''])
      = [''RG:Z:x'', ''MI:Z:read1'', ''Xc:B:i,5,10,1,2''] @ [''MM:Z:'', ''ML:B:'']"
proof -
  let ?MT = "{''Ml'', ''ML'', ''Mm'', ''MM''}"
  let ?mb = "[([PStr ''C'', PInt 0, PStr ''m''], [(2 :: int, 200 :: int), (3, 100)])]"
  let ?r = "mk_AlignData ''read1'' ''AACCGGTTCC'' ''*'' [''MM:Z:C+m,0,0;'', ''ML:B:C,200,100'', ''RG:Z:x'']"
  let ?c1 = "mk_AlignData ''read1:1_2'' ''AACCG'' ''*''
             [''RG:Z:x'', ''MI:Z:read1'', ''Xc:B:i,0,5,0,2'', ''MM:Z:C+m,0,0;'', ''ML:B:C,200,100;'']"
  let ?c2 = "mk_AlignData ''read1:2_2'' ''GTTCC'' []
             [''RG:Z:x'', ''MI:Z:read1'', ''Xc:B:i,5,10,1,2'', ''MM:Z:'', ''ML:B:'']"
  have s: "split ?MT (Inr ?mb) ?r [5] = Inr [?c1, ?c2]" by code_simp
  have h: "has_mods ?MT ?r" by code_simp
  have d: "(Inr ?mb :: error + modified_bases) = Inr ?mb" by simp
  have ne: "?mb \<noteq> []" by simp
  have i1: "(1::nat) < length [?c1, ?c2]" by simp
  have v1: "split_intervals ?r [5] ! 1 = (5, 10)" by code_simp
  have bt: "base_tags ?MT ?r 5 10 True True (Some (1, 2))
      = [''RG:Z:x'', ''MI:Z:read1'', ''Xc:B:i,5,10,1,2'']" by code_simp
  have np: "\<forall>item \<in> set ?mb. \<forall>p \<in> set (snd item).
              \<not> (fst (split_intervals ?r [5] ! 1) \<le> fst p
                  \<and> fst p < snd (split_intervals ?r [5] ! 1))"
    using v1 by simp
  note t = split_mod_tags_always [OF s h d ne i1]
  from mp [OF conjunct2 [OF t] np] v1 bt
  have "tags ?c2 = [''RG:Z:x'', ''MI:Z:read1'', ''Xc:B:i,5,10,1,2''] @ [''MM:Z:'', ''ML:B:'']"
    by simp
  with s h ne v1 bt show ?thesis by simp
qed

text \<open>
  C10. The child at index \<open>x\<close> (counted from 0) of the \<open>N\<close> children that \<open>split\<close> returns
  is named after the parent with the suffix \<open>:(x+1)_N\<close>, and its tags start with the tags
  kept from the parent, the \<open>MI\<close> tag of the parent's name and the tag
  \<open>Xc:B:i,start,end,x,N\<close>: the name counts from 1, the tag from 0.
\<close>

theorem split_name_and_xc:
  assumes "split MOD_TAGS decoded r positions = Inr cs" and "x < length cs"
  shows "name (cs ! x) = name r @ '':'' @ str_nat (x + 1) @ ''_'' @ str_nat (length cs)
       \<and> take (length (kept_tags MOD_TAGS True (tags r)) + 2) (tags (cs ! x))
           = kept_tags MOD_TAGS True (tags r)
             @ [''MI:Z:'' @ name r,
                ''Xc:B:i,'' @ str_int (fst (split_intervals r positions ! x)) @ '',''
                  @ str_int (snd (split_intervals r positions ! x)) @ '',''
                  @ str_nat x @ '','' @ str_nat (length cs)]"
proof -
  let ?iv = "split_intervals r positions ! x"
  let ?n = "length (split_intervals r positions)"
  from split_Inr [OF assms(1)] assms(2)
  have len: "length cs = ?n"
    and g: "get_subread MOD_TAGS r (fst ?iv) (snd ?iv) (subread_name r x ?n) True True
             (Some (int x, int ?n)) (split_mods MOD_TAGS decoded r) = Inr (cs ! x)"
    by simp_all
  have bt: "base_tags MOD_TAGS r (fst ?iv) (snd ?iv) True True (Some (int x, int ?n))
        = kept_tags MOD_TAGS True (tags r)
             @ [''MI:Z:'' @ name r,
                ''Xc:B:i,'' @ str_int (fst ?iv) @ '','' @ str_int (snd ?iv) @ '',''
                  @ str_nat x @ '','' @ str_nat ?n]"
    by (simp add: base_tags_def xc_tag_def str_int_nat)
  from get_subread_fields [OF g] len bt show ?thesis
    by (simp add: subread_name_def)
qed

theorem split_name_and_xc_witness:
  "split {''Ml'', ''ML'', ''Mm'', ''MM''} (Inr [])
      (mk_AlignData ''read1'' ''AACATGAA'' ''!!!!!!!!'' [''MI:Z:old'', ''RG:Z:x'']) [4]
    = Inr [mk_AlignData ''read1:1_2'' ''AACA'' ''!!!!'' [''RG:Z:x'', ''MI:Z:read1'', ''Xc:B:i,0,4,0,2''],
           mk_AlignData ''read1:2_2'' ''TGAA'' ''!!!!'' [''RG:Z:x'', ''MI:Z:read1'', ''Xc:B:i,4,8,1,2'']]
   \<and> (1::nat) < length
        [mk_AlignData ''read1:1_2'' ''AACA'' ''!!!!'' [''RG:Z:x'', ''MI:Z:read1'', ''Xc:B:i,0,4,0,2''],
         mk_AlignData ''read1:2_2'' ''TGAA'' ''!!!!'' [''RG:Z:x'', ''MI:Z:read1'', ''Xc:B:i,4,8,1,2'']]
   \<and> name (mk_AlignData ''read1:2_2'' ''TGAA'' ''!!!!'' [''RG:Z:x'', ''MI:Z:read1'', ''Xc:B:i,4,8,1,2''])
      = ''read1:2_2''
   \<and> kept_tags {''Ml'', ''ML'', ''Mm'', ''MM''} True [''MI:Z:old'', ''RG:Z:x''] = [''RG:Z:x'']
   \<and> take (length [''RG:Z:x''] + 2)
        (tags (mk_AlignData ''read1:2_2'' ''TGAA'' ''!!!!''
                 [''RG:Z:x'', ''MI:Z:read1'', ''Xc:B:i,4,8,1,2'']))
      = [''RG:Z:x'', ''MI:Z:read1'', ''Xc:B:i,4,8,1,2'']"
proof -
  let ?MT = "{''Ml'', ''ML'', ''Mm'', ''MM''}"
  let ?r = "mk_AlignData ''read1'' ''AACATGAA'' ''!!!!!!!!'' [''MI:Z:old'', ''RG:Z:x'']"
  let ?c1 = "mk_AlignData ''read1:1_2'' ''AACA'' ''!!!!'' [''RG:Z:x'', ''MI:Z:read1'', ''Xc:B:i,0,4,0,2'']"
  let ?c2 = "mk_AlignData ''read1:2_2'' ''TGAA'' ''!!!!'' [''RG:Z:x'', ''MI:Z:read1'', ''Xc:B:i,4,8,1,2'']"
  have s: "split ?MT (Inr []) ?r [4] = Inr [?c1, ?c2]" by code_simp
  have i1: "(1::nat) < length [?c1, ?c2]" by simp
  have k: "kept_tags ?MT True [''MI:Z:old'', ''RG:Z:x''] = [''RG:Z:x'']" by code_simp
  have v1: "split_intervals ?r [4] ! 1 = (4, 8)" by code_simp
  have n1: "str_nat (1 + 1) = ''2''" "str_nat (length [?c1, ?c2]) = ''2''" "str_nat 1 = ''1''"
    "str_int 4 = ''4''" "str_int 8 = ''8''" by code_simp+
  have tr: "tags ?r = [''MI:Z:old'', ''RG:Z:x'']" "name ?r = ''read1''"
    by (simp_all add: mk_AlignData_def)
  note t = split_name_and_xc [OF s i1]
  from t k v1 n1 tr have "name ?c2 = ''read1:2_2''
     \<and> take (length [''RG:Z:x''] + 2) (tags ?c2)
         = [''RG:Z:x'', ''MI:Z:read1'', ''Xc:B:i,4,8,1,2'']"
    by simp
  with s i1 k show ?thesis by simp
qed

end
